theory Spec2Isabelle
  imports Main "HOL-Library.Multiset" "HOL-Library.Word"
begin

section \<open>Data model of otbDecloudTimeSeriesPreProcessor.cxx\<close>

text \<open>
  The application pairs a SAR (radar) and an optical time series by their timestamps
  (\<open>GetCandidatesPairs\<close>), renumbers the images that are used (\<open>InstantiateSources\<close>),
  fuses the stacked pixels (\<open>PixelFunction::operator()\<close>) and plans the channel slices
  of the fused image (\<open>InitFilter\<close>).

  Numbers. Timestamps and the maximum gap are \<open>float\<close> in the source; they are compared,
  subtracted and passed to \<open>std::abs\<close>. They are modelled by an arbitrary linearly ordered
  type with a subtraction and an absolute value, \<open>'a::{linorder,minus,abs}\<close>: no law of
  the two operations is assumed, so the theorems hold for rounded as well as for exact
  arithmetic. What the model leaves out is NaN, which no order relation holds for.
  Pixel values are \<open>float\<close> too, but they are only copied and compared with \<open>!=\<close>; they
  are modelled by an arbitrary type with HOL's equality (values that \<open>!=\<close> does not tell
  apart although they differ, as the two zeros, and a value that differs from itself, as
  NaN, are outside the model). The \<open>unsigned int\<close> members and arguments of the pixel
  functor (band counts, number of outputs, image indices) and the channel numbers of
  \<open>InitFilter\<close> are 32-bit words, whose products and sums wrap as in the source. The
  indices of \<open>InstantiateSources\<close> and of the timestamp lists are positions in vectors
  that hold them, and are natural numbers.
\<close>

record 'a TimestampWithIndex =
  timestamp :: 'a
  index :: nat

datatype SortMode = ASC | DES | ABS

text \<open>
  What stops a run: \<open>FatalError\<close> is the exception that the macro \<open>otbAppLogFATAL\<close>
  raises, \<open>OutOfBounds\<close> a read or a write past the end of a pixel or of an image list, and
  \<open>Uninitialised\<close> the use of a pixel whose bands were never written. The source checks
  neither of the last two (its behaviour is undefined there); the model makes them errors.
\<close>

datatype error = FatalError | OutOfBounds | Uninitialised

section \<open>PixelFunction\<close>

record 'a PixelFunction =
  m_NbOutputImages :: "32 word"
  m_Pairs :: "(32 word \<times> 32 word) list"
  m_SARNbBands :: "32 word"
  m_OptNbBands :: "32 word"
  m_SARNoDataValue :: 'a
  m_OptNoDataValue :: 'a

text \<open>\<open>operator!=\<close> and \<open>operator==\<close> of the functor.\<close>

definition operator_ne :: "'a PixelFunction \<Rightarrow> 'a PixelFunction \<Rightarrow> bool" where
  "operator_ne this other = False"

definition operator_eq :: "'a PixelFunction \<Rightarrow> 'a PixelFunction \<Rightarrow> bool" where
  "operator_eq this other = (\<not> operator_ne this other)"

text \<open>
  \<open>OutputSize\<close>: the product is computed in \<open>unsigned int\<close> and then converted to
  \<open>std::size_t\<close>.
\<close>

definition OutputSize :: "'a PixelFunction \<Rightarrow> nat" where
  "OutputSize f = unat (m_NbOutputImages f * (m_SARNbBands f + m_OptNbBands f))"

definition SetParameters ::
  "(32 word \<times> 32 word) list \<Rightarrow> 32 word \<Rightarrow> 32 word \<Rightarrow> 'a \<Rightarrow> 'a \<Rightarrow> 32 word \<Rightarrow> 'a PixelFunction" where
  "SetParameters pairs sarNbBands optNbBands sarNdVal optNdVal nbOutputImages =
     \<lparr>m_NbOutputImages = nbOutputImages, m_Pairs = pairs,
      m_SARNbBands = sarNbBands, m_OptNbBands = optNbBands,
      m_SARNoDataValue = sarNdVal, m_OptNoDataValue = optNdVal\<rparr>"

text \<open>
  \<open>GetPixel\<close> copies the bands \<open>start, \<dots>, start + nbBands - 1\<close> of the stacked pixel, with
  \<open>start = idx * nbBands\<close>; the product and the bound \<open>start + nbBands\<close> of the loop are
  computed in \<open>unsigned int\<close>. When the bound wraps it is below \<open>start\<close>, the loop does not
  run and the pixel of \<open>nbBands\<close> bands is returned unwritten (\<open>Uninitialised\<close>). Otherwise
  the loop reads \<open>inPix[i]\<close> unchecked up to the bound; a read past the end of the vector is
  \<open>OutOfBounds\<close>.
\<close>

definition GetPixel :: "'a list \<Rightarrow> 32 word \<Rightarrow> 32 word \<Rightarrow> error + 'a list" where
  "GetPixel inPix idx nbBands =
     (let start = idx * nbBands;
          stop = start + nbBands in
      if start \<le> stop then
        (if unat stop \<le> length inPix
         then Inr (map (\<lambda>i. inPix ! i) [unat start ..< unat stop])
         else Inl OutOfBounds)
      else Inl Uninitialised)"

text \<open>\<open>IsNoData\<close>: the loop returns false at the first band that differs.\<close>

fun IsNoData :: "'a list \<Rightarrow> 'a \<Rightarrow> bool" where
  "IsNoData [] noDataValue = True"
| "IsNoData (v # pix) noDataValue = (if v \<noteq> noDataValue then False else IsNoData pix noDataValue)"

text \<open>
  The output pixel of \<open>operator()\<close> is a vector of \<open>OutputSize\<close> bands that \<open>SetSize\<close>
  leaves unwritten: a list of \<open>None\<close>. A band that is written becomes \<open>Some\<close> of its value.
  \<open>outPix[outBand] = v\<close> is unchecked in the source; a write past the end of the vector is
  \<open>OutOfBounds\<close>. While the writes stay inside the vector \<open>outBand\<close> is below \<open>2^32\<close>, so the
  counter is a natural number.

  \<open>fill_bands\<close> is each of the two inner loops of the first loop (\<open>n\<close> bands set to a
  no-data value), \<open>init_slots\<close> the first loop over the \<open>n\<close> output images.
\<close>

fun fill_bands :: "'a option list \<Rightarrow> nat \<Rightarrow> nat \<Rightarrow> 'a \<Rightarrow> error + ('a option list \<times> nat)" where
  "fill_bands outPix outBand 0 noDataValue = Inr (outPix, outBand)"
| "fill_bands outPix outBand (Suc n) noDataValue =
     (if outBand < length outPix
      then fill_bands (outPix[outBand := Some noDataValue]) (Suc outBand) n noDataValue
      else Inl OutOfBounds)"

fun init_slots ::
  "'a PixelFunction \<Rightarrow> 'a option list \<Rightarrow> nat \<Rightarrow> nat \<Rightarrow> error + ('a option list \<times> nat)" where
  "init_slots f outPix outBand 0 = Inr (outPix, outBand)"
| "init_slots f outPix outBand (Suc n) =
     (case fill_bands outPix outBand (unat (m_SARNbBands f)) (m_SARNoDataValue f) of
        Inl e \<Rightarrow> Inl e
      | Inr (outPix1, outBand1) \<Rightarrow>
         (case fill_bands outPix1 outBand1 (unat (m_OptNbBands f)) (m_OptNoDataValue f) of
            Inl e \<Rightarrow> Inl e
          | Inr (outPix2, outBand2) \<Rightarrow> init_slots f outPix2 outBand2 n))"

text \<open>The two inner copy loops of the second loop: \<open>outPix[outBand] = pix[i]; outBand++\<close>.\<close>

fun write_bands :: "'a option list \<Rightarrow> nat \<Rightarrow> 'a list \<Rightarrow> error + ('a option list \<times> nat)" where
  "write_bands outPix outBand [] = Inr (outPix, outBand)"
| "write_bands outPix outBand (v # pix) =
     (if outBand < length outPix
      then write_bands (outPix[outBand := Some v]) (Suc outBand) pix
      else Inl OutOfBounds)"

text \<open>
  The loop over \<open>m_Pairs\<close>, with the state \<open>outPix\<close>, \<open>outBand\<close>, \<open>currentNbOutput\<close>. It
  stops at the end of the list or when \<open>currentNbOutput\<close> reaches \<open>m_NbOutputImages\<close>.
\<close>

fun scan_pairs ::
  "'a PixelFunction \<Rightarrow> 'a list \<Rightarrow> 'a list \<Rightarrow> (32 word \<times> 32 word) list \<Rightarrow> 'a option list \<Rightarrow> nat \<Rightarrow> nat
     \<Rightarrow> error + 'a option list" where
  "scan_pairs f inSARPix inOptPix [] outPix outBand currentNbOutput = Inr outPix"
| "scan_pairs f inSARPix inOptPix (pair # rest) outPix outBand currentNbOutput =
     (if currentNbOutput < unat (m_NbOutputImages f) then
        (case GetPixel inSARPix (fst pair) (m_SARNbBands f) of
           Inl e \<Rightarrow> Inl e
         | Inr sarPix \<Rightarrow>
            (case GetPixel inOptPix (snd pair) (m_OptNbBands f) of
               Inl e \<Rightarrow> Inl e
             | Inr optPix \<Rightarrow>
                (if \<not> IsNoData sarPix (m_SARNoDataValue f) \<and> \<not> IsNoData optPix (m_OptNoDataValue f)
                 then
                   (case write_bands outPix outBand sarPix of
                      Inl e \<Rightarrow> Inl e
                    | Inr (outPix1, outBand1) \<Rightarrow>
                       (case write_bands outPix1 outBand1 optPix of
                          Inl e \<Rightarrow> Inl e
                        | Inr (outPix2, outBand2) \<Rightarrow>
                           scan_pairs f inSARPix inOptPix rest outPix2 outBand2 (Suc currentNbOutput)))
                 else scan_pairs f inSARPix inOptPix rest outPix outBand currentNbOutput)))
      else Inr outPix)"

text \<open>The pixel that is returned: every band must have been written.\<close>

fun return_pixel :: "'a option list \<Rightarrow> error + 'a list" where
  "return_pixel [] = Inr []"
| "return_pixel (None # outPix) = Inl Uninitialised"
| "return_pixel (Some v # outPix) =
     (case return_pixel outPix of Inl e \<Rightarrow> Inl e | Inr vs \<Rightarrow> Inr (v # vs))"

text \<open>\<open>PixelFunction::operator()\<close>.\<close>

definition operator_call :: "'a PixelFunction \<Rightarrow> 'a list \<Rightarrow> 'a list \<Rightarrow> error + 'a list" where
  "operator_call f inSARPix inOptPix =
     (case init_slots f (replicate (OutputSize f) None) 0 (unat (m_NbOutputImages f)) of
        Inl e \<Rightarrow> Inl e
      | Inr (outPix, outBand) \<Rightarrow>
         (case scan_pairs f inSARPix inOptPix (m_Pairs f) outPix 0 0 of
            Inl e \<Rightarrow> Inl e
          | Inr outPix' \<Rightarrow> return_pixel outPix'))"

subsection \<open>The vocabulary of the claims about the functor\<close>

text \<open>
  The sub-pixel of a pair in the stacked SAR pixel and in the stacked optical pixel:
  \<open>radarPixel[r * radarBandCount .. + radarBandCount)\<close> and
  \<open>opticalPixel[o * opticalBandCount .. + opticalBandCount)\<close>, in the arithmetic of the
  natural numbers. A pair is in range when both sub-pixels lie inside the stacked pixels,
  and valid when neither sub-pixel is equal to its no-data value in every band. A slot of the
  output is a block of \<open>m_SARNbBands + m_OptNbBands\<close> consecutive bands, and the sentinel
  slot is the SAR no-data value repeated \<open>m_SARNbBands\<close> times followed by the optical
  no-data value repeated \<open>m_OptNbBands\<close> times. None of these is used by the model above.
\<close>

definition sar_subpixel :: "'a PixelFunction \<Rightarrow> 'a list \<Rightarrow> 32 word \<times> 32 word \<Rightarrow> 'a list" where
  "sar_subpixel f inSARPix pair =
     take (unat (m_SARNbBands f)) (drop (unat (fst pair) * unat (m_SARNbBands f)) inSARPix)"

definition opt_subpixel :: "'a PixelFunction \<Rightarrow> 'a list \<Rightarrow> 32 word \<times> 32 word \<Rightarrow> 'a list" where
  "opt_subpixel f inOptPix pair =
     take (unat (m_OptNbBands f)) (drop (unat (snd pair) * unat (m_OptNbBands f)) inOptPix)"

definition pair_in_range ::
  "'a PixelFunction \<Rightarrow> 'a list \<Rightarrow> 'a list \<Rightarrow> 32 word \<times> 32 word \<Rightarrow> bool" where
  "pair_in_range f inSARPix inOptPix pair =
     (unat (fst pair) * unat (m_SARNbBands f) + unat (m_SARNbBands f) \<le> length inSARPix
      \<and> unat (snd pair) * unat (m_OptNbBands f) + unat (m_OptNbBands f) \<le> length inOptPix)"

definition valid_pair :: "'a PixelFunction \<Rightarrow> 'a list \<Rightarrow> 'a list \<Rightarrow> 32 word \<times> 32 word \<Rightarrow> bool" where
  "valid_pair f inSARPix inOptPix pair =
     (\<not> list_all (\<lambda>v. v = m_SARNoDataValue f) (sar_subpixel f inSARPix pair)
      \<and> \<not> list_all (\<lambda>v. v = m_OptNoDataValue f) (opt_subpixel f inOptPix pair))"

definition pair_slot :: "'a PixelFunction \<Rightarrow> 'a list \<Rightarrow> 'a list \<Rightarrow> 32 word \<times> 32 word \<Rightarrow> 'a list" where
  "pair_slot f inSARPix inOptPix pair =
     sar_subpixel f inSARPix pair @ opt_subpixel f inOptPix pair"

definition output_slot :: "'a PixelFunction \<Rightarrow> 'a list \<Rightarrow> nat \<Rightarrow> 'a list" where
  "output_slot f outPix i =
     take (unat (m_SARNbBands f) + unat (m_OptNbBands f))
       (drop (i * (unat (m_SARNbBands f) + unat (m_OptNbBands f))) outPix)"

definition sentinel_slot :: "'a PixelFunction \<Rightarrow> 'a list" where
  "sentinel_slot f =
     replicate (unat (m_SARNbBands f)) (m_SARNoDataValue f)
     @ replicate (unat (m_OptNbBands f)) (m_OptNoDataValue f)"

section \<open>GetCandidatesPairs\<close>

text \<open>
  The parameters of the application that the pair matcher reads. \<open>sorting\<close> is the choice
  parameter (one of the three modes), \<open>sorting_abs_reftimestamp\<close> the value of
  \<open>Str2Timestamp(GetParameterAsString("sorting.abs.reftimestamp"))\<close>, which is read in the
  mode \<open>ABS\<close> only, and \<open>maxgap\<close> the value of \<open>GetParameterFloat("maxgap")\<close>. The
  timestamp lists are the lists of Str2Timestamp of the two string lists, in the order of the
  parameters; parsing itself (\<open>std::stof\<close>) is not part of the model.
\<close>

record 'a Parameters =
  sorting :: SortMode
  sorting_abs_reftimestamp :: 'a
  maxgap :: 'a

text \<open>
  \<open>std::sort\<close> belongs to the C++ standard library. It is a parameter \<open>std_sort\<close> of the
  model, and what the standard promises about it is the predicate \<open>std_sort_contract\<close>: for
  a comparator that is a strict weak ordering, the result is a permutation of the input in
  which no element compares less than an element before it. The order of equivalent
  elements is left open.
\<close>

definition strict_weak_ordering :: "('e \<Rightarrow> 'e \<Rightarrow> bool) \<Rightarrow> bool" where
  "strict_weak_ordering cmp =
     ((\<forall>a. \<not> cmp a a)
      \<and> (\<forall>a b c. cmp a b \<longrightarrow> cmp b c \<longrightarrow> cmp a c)
      \<and> (\<forall>a b c. \<not> cmp a b \<and> \<not> cmp b a \<longrightarrow> \<not> cmp b c \<and> \<not> cmp c b
             \<longrightarrow> \<not> cmp a c \<and> \<not> cmp c a))"

definition std_sort_contract :: "(('e \<Rightarrow> 'e \<Rightarrow> bool) \<Rightarrow> 'e list \<Rightarrow> 'e list) \<Rightarrow> bool" where
  "std_sort_contract std_sort =
     (\<forall>cmp xs. strict_weak_ordering cmp \<longrightarrow>
        mset (std_sort cmp xs) = mset xs
        \<and> sorted_wrt (\<lambda>a b. \<not> cmp b a) (std_sort cmp xs))"

text \<open>
  One function that meets the contract, an insertion sort. It stands for \<open>std::sort\<close>
  where the model is run on concrete input.
\<close>

fun insert_sorted :: "('e \<Rightarrow> 'e \<Rightarrow> bool) \<Rightarrow> 'e \<Rightarrow> 'e list \<Rightarrow> 'e list" where
  "insert_sorted cmp x [] = [x]"
| "insert_sorted cmp x (y # ys) =
     (if cmp x y then x # y # ys else y # insert_sorted cmp x ys)"

fun insertion_sort :: "('e \<Rightarrow> 'e \<Rightarrow> bool) \<Rightarrow> 'e list \<Rightarrow> 'e list" where
  "insertion_sort cmp [] = []"
| "insertion_sort cmp (x # xs) = insert_sorted cmp x (insertion_sort cmp xs)"

text \<open>\<open>GetTimestampsWithIndices\<close>: each timestamp with its position in the list.\<close>

fun GetTimestampsWithIndices_from :: "nat \<Rightarrow> 'a list \<Rightarrow> 'a TimestampWithIndex list" where
  "GetTimestampsWithIndices_from cnt [] = []"
| "GetTimestampsWithIndices_from cnt (t # rest) =
     \<lparr>timestamp = t, index = cnt\<rparr> # GetTimestampsWithIndices_from (Suc cnt) rest"

definition GetTimestampsWithIndices :: "'a list \<Rightarrow> 'a TimestampWithIndex list" where
  "GetTimestampsWithIndices timestamps = GetTimestampsWithIndices_from 0 timestamps"

text \<open>
  \<open>SortTimestampsWithIndices\<close>, with the three comparators of the source. The last branch
  of the source (a mode that is none of the three) cannot be reached with the choice
  parameter and has no counterpart in \<open>SortMode\<close>.
\<close>

definition SortTimestampsWithIndices ::
  "(('a::{linorder,minus,abs} TimestampWithIndex \<Rightarrow> 'a TimestampWithIndex \<Rightarrow> bool)
      \<Rightarrow> 'a TimestampWithIndex list \<Rightarrow> 'a TimestampWithIndex list)
   \<Rightarrow> 'a Parameters \<Rightarrow> 'a TimestampWithIndex list \<Rightarrow> 'a TimestampWithIndex list" where
  "SortTimestampsWithIndices std_sort params ts =
     (case sorting params of
        ASC \<Rightarrow> std_sort (\<lambda>a b. timestamp a < timestamp b) ts
      | DES \<Rightarrow> std_sort (\<lambda>a b. timestamp a > timestamp b) ts
      | ABS \<Rightarrow>
          (let refTimestamp = sorting_abs_reftimestamp params
           in std_sort (\<lambda>a b. \<bar>timestamp a - refTimestamp\<bar> < \<bar>timestamp b - refTimestamp\<bar>) ts))"

text \<open>
  The loop over the sorted optical entries. The SAR list is sorted in place at every
  iteration, so the next iteration starts from the list the previous one left.
\<close>

fun pairs_loop ::
  "(('a::{linorder,minus,abs} TimestampWithIndex \<Rightarrow> 'a TimestampWithIndex \<Rightarrow> bool)
      \<Rightarrow> 'a TimestampWithIndex list \<Rightarrow> 'a TimestampWithIndex list)
   \<Rightarrow> 'a \<Rightarrow> 'a TimestampWithIndex list \<Rightarrow> 'a TimestampWithIndex list
   \<Rightarrow> (nat \<times> nat) list \<Rightarrow> (nat \<times> nat) list" where
  "pairs_loop std_sort maxGap [] sarTsWithIdxList indicesPairs = indicesPairs"
| "pairs_loop std_sort maxGap (optTsWithIdx # rest) sarTsWithIdxList indicesPairs =
     (let optTs = timestamp optTsWithIdx;
          optIdx = index optTsWithIdx;
          sarSorted = std_sort (\<lambda>i j. \<bar>timestamp i - optTs\<bar> < \<bar>timestamp j - optTs\<bar>) sarTsWithIdxList;
          picked = filter (\<lambda>sarTsWithIdx. \<bar>timestamp sarTsWithIdx - optTs\<bar> \<le> maxGap) sarSorted
      in pairs_loop std_sort maxGap rest sarSorted
           (indicesPairs @ map (\<lambda>sarTsWithIdx. (index sarTsWithIdx, optIdx)) picked))"

text \<open>
  Modelled from the spec: the macro \<open>otbAppLogFATAL\<close> is defined by the OTB framework; by
  the spec an empty candidate list raises \<open>FatalError\<close>, so the macro ends the function
  with the error value \<open>FatalError\<close>. The warning for a small \<open>maxgap\<close> and the logging
  loop have no effect on the result.
\<close>

definition GetCandidatesPairs ::
  "(('a::{linorder,minus,abs} TimestampWithIndex \<Rightarrow> 'a TimestampWithIndex \<Rightarrow> bool)
      \<Rightarrow> 'a TimestampWithIndex list \<Rightarrow> 'a TimestampWithIndex list)
   \<Rightarrow> 'a Parameters \<Rightarrow> 'a list \<Rightarrow> 'a list \<Rightarrow> error + (nat \<times> nat) list" where
  "GetCandidatesPairs std_sort params timestampssar timestampsopt =
     (let sarTsWithIdxList = GetTimestampsWithIndices timestampssar;
          optTsWithIdxList = GetTimestampsWithIndices timestampsopt;
          optSorted = SortTimestampsWithIndices std_sort params optTsWithIdxList;
          indicesPairs = pairs_loop std_sort (maxgap params) optSorted sarTsWithIdxList []
      in if length indicesPairs = 0 then Inl FatalError else Inr indicesPairs)"

subsection \<open>The vocabulary of the claims about the pair matcher\<close>

text \<open>
  \<open>policy_ordered\<close> is the order of the optical timestamps that a sort mode asks for,
  \<open>nearest_first\<close> the order of SAR timestamps by their distance to one optical timestamp.
  A list of groups \<open>(optIdx, sarIdxs)\<close> stands for the pair list in which each group
  contributes the pairs \<open>(sarIdx, optIdx)\<close>, group after group.
\<close>

definition policy_ordered :: "'a::{linorder,minus,abs} Parameters \<Rightarrow> 'a list \<Rightarrow> bool" where
  "policy_ordered params ts =
     (case sorting params of
        ASC \<Rightarrow> sorted_wrt (\<lambda>a b. a \<le> b) ts
      | DES \<Rightarrow> sorted_wrt (\<lambda>a b. a \<ge> b) ts
      | ABS \<Rightarrow> sorted_wrt (\<lambda>a b. \<bar>a - sorting_abs_reftimestamp params\<bar>
                               \<le> \<bar>b - sorting_abs_reftimestamp params\<bar>) ts)"

definition nearest_first :: "'a::{linorder,minus,abs} \<Rightarrow> 'a list \<Rightarrow> bool" where
  "nearest_first optTs sarTimestamps = sorted_wrt (\<lambda>a b. \<bar>a - optTs\<bar> \<le> \<bar>b - optTs\<bar>) sarTimestamps"

definition pairs_of_groups :: "(nat \<times> nat list) list \<Rightarrow> (nat \<times> nat) list" where
  "pairs_of_groups groups =
     concat (map (\<lambda>(optIdx, sarIdxs). map (\<lambda>sarIdx. (sarIdx, optIdx)) sarIdxs) groups)"

section \<open>InstantiateSources\<close>

text \<open>
  \<open>std::find\<close> on a vector of indices, as the offset of the iterator it returns from
  \<open>begin()\<close>: the position of the first occurrence, or the length of the vector (\<open>end()\<close>)
  when the value does not occur.
\<close>

fun std_find :: "nat list \<Rightarrow> nat \<Rightarrow> nat" where
  "std_find [] v = 0"
| "std_find (x # xs) v = (if x = v then 0 else Suc (std_find xs v))"

text \<open>
  \<open>GetNthElement\<close> of an image list (an OTB \<open>ObjectList\<close>); an index past the end of the
  list is the error \<open>OutOfBounds\<close>.
\<close>

definition GetNthElement :: "'img list \<Rightarrow> nat \<Rightarrow> error + 'img" where
  "GetNthElement imgs n = (if n < length imgs then Inr (imgs ! n) else Inl OutOfBounds)"

text \<open>
  The body of the loop treats the SAR index and the optical index of a pair in the same
  way, each with its own three variables: the original indices seen so far (\<open>sarOldIdx\<close>,
  \<open>optOldIdx\<close>), the new image list (\<open>sarList\<close>, \<open>optList\<close>) and the counter
  (\<open>sarNewIdxCounter\<close>, \<open>optNewIdxCounter\<close>). \<open>use_image\<close> is that block; it returns the
  three variables and the new index of the image.
\<close>

type_synonym 'img used_images = "nat list \<times> 'img list \<times> nat"

definition use_image :: "'img list \<Rightarrow> nat \<Rightarrow> 'img used_images \<Rightarrow> error + ('img used_images \<times> nat)" where
  "use_image inList idx used =
     (case used of (oldIdx, newList, newIdxCounter) \<Rightarrow>
        (let search = std_find oldIdx idx in
         if search = length oldIdx then
           (case GetNthElement inList idx of
              Inl e \<Rightarrow> Inl e
            | Inr img \<Rightarrow> Inr ((oldIdx @ [idx], newList @ [img], Suc newIdxCounter), newIdxCounter))
         else Inr (used, search)))"

fun InstantiateSources_loop ::
  "'img list \<Rightarrow> 'img list \<Rightarrow> (nat \<times> nat) list \<Rightarrow> 'img used_images \<Rightarrow> 'img used_images
     \<Rightarrow> (nat \<times> nat) list \<Rightarrow> error + ((nat \<times> nat) list \<times> 'img list \<times> 'img list)" where
  "InstantiateSources_loop inSARList inOptList [] sar opt outIndicesPairs =
     Inr (outIndicesPairs, fst (snd sar), fst (snd opt))"
| "InstantiateSources_loop inSARList inOptList (pair # rest) sar opt outIndicesPairs =
     (case use_image inSARList (fst pair) sar of
        Inl e \<Rightarrow> Inl e
      | Inr (sar', sarNewIdx) \<Rightarrow>
         (case use_image inOptList (snd pair) opt of
            Inl e \<Rightarrow> Inl e
          | Inr (opt', optNewIdx) \<Rightarrow>
             InstantiateSources_loop inSARList inOptList rest sar' opt'
               (outIndicesPairs @ [(sarNewIdx, optNewIdx)])))"

definition InstantiateSources ::
  "(nat \<times> nat) list \<Rightarrow> 'img list \<Rightarrow> 'img list
     \<Rightarrow> error + ((nat \<times> nat) list \<times> 'img list \<times> 'img list)" where
  "InstantiateSources inIndicesPairs inSARList inOptList =
     InstantiateSources_loop inSARList inOptList inIndicesPairs ([], [], 0) ([], [], 0) []"

subsection \<open>The vocabulary of the claim about compaction\<close>

text \<open>
  \<open>first_seen xs\<close> lists the distinct elements of \<open>xs\<close> in the order of their first
  occurrence. The compact index of an original index is its position in that list, and
  \<open>compact_pair\<close> translates both components of a pair. \<open>used_after\<close> is the state of one
  side of the loop once the original indices \<open>xs\<close> have been processed.
\<close>

primrec first_seen :: "nat list \<Rightarrow> nat list" where
  "first_seen [] = []"
| "first_seen (x # xs) = x # removeAll x (first_seen xs)"

definition compact_pair :: "(nat \<times> nat) list \<Rightarrow> nat \<times> nat \<Rightarrow> nat \<times> nat" where
  "compact_pair candidatePairs pair =
     (std_find (first_seen (map fst candidatePairs)) (fst pair),
      std_find (first_seen (map snd candidatePairs)) (snd pair))"

definition used_after :: "'img list \<Rightarrow> nat list \<Rightarrow> 'img used_images" where
  "used_after inList xs =
     (first_seen xs, map (\<lambda>i. inList ! i) (first_seen xs), length (first_seen xs))"

section \<open>InitFilter\<close>

text \<open>
  The slicers of \<open>InitFilter\<close>: for each output, the first and last channel of the SAR
  extractor and of the optical extractor. \<open>start\<close> and the band counts are \<open>unsigned int\<close>
  (32-bit words); the number of outputs \<open>m_Outputs\<close> is at least 1 in the source and is a
  natural number here, as is the loop counter.
\<close>

type_synonym channel_range = "32 word \<times> 32 word"

function InitFilter_loop ::
  "32 word \<Rightarrow> 32 word \<Rightarrow> nat \<Rightarrow> nat \<Rightarrow> 32 word \<Rightarrow> channel_range list \<Rightarrow> channel_range list
     \<Rightarrow> channel_range list \<times> channel_range list" where
  "InitFilter_loop sarNbBands optNbBands m_Outputs i start sarSlicers optSlicers =
     (if i \<le> m_Outputs then
        InitFilter_loop sarNbBands optNbBands m_Outputs (Suc i) (start + (sarNbBands + optNbBands))
          (sarSlicers @ [(start, start + sarNbBands - 1)])
          (optSlicers @ [(sarNbBands + start, start + sarNbBands + optNbBands - 1)])
      else (sarSlicers, optSlicers))"
  by pat_completeness auto
termination
  by (relation "measure (\<lambda>(sarNbBands, optNbBands, m_Outputs, i, start, sarSlicers, optSlicers).
        Suc m_Outputs - i)") auto

definition InitFilter :: "32 word \<Rightarrow> 32 word \<Rightarrow> nat \<Rightarrow> channel_range list \<times> channel_range list" where
  "InitFilter sarNbBands optNbBands m_Outputs =
     InitFilter_loop sarNbBands optNbBands m_Outputs 1 1 [] []"

subsection \<open>The vocabulary of the claim about the channel slices\<close>

text \<open>
  The channel ranges of slot \<open>i\<close> (counted from 0) for \<open>r\<close> SAR bands and \<open>p\<close> optical
  bands, first and last channel included, in 32-bit arithmetic, and a channel range read as a
  pair of natural numbers.
\<close>

definition slot_sar_range :: "32 word \<Rightarrow> 32 word \<Rightarrow> nat \<Rightarrow> channel_range" where
  "slot_sar_range r p i = (of_nat i * (r + p) + 1, of_nat i * (r + p) + r)"

definition slot_opt_range :: "32 word \<Rightarrow> 32 word \<Rightarrow> nat \<Rightarrow> channel_range" where
  "slot_opt_range r p i = (of_nat i * (r + p) + r + 1, of_nat i * (r + p) + r + p)"

definition range_as_nat :: "channel_range \<Rightarrow> nat \<times> nat" where
  "range_as_nat c = (unat (fst c), unat (snd c))"

section \<open>Theorems\<close>

subsection \<open>The pixel functor\<close>

lemma map_nth_upt_take_drop:
  "a + n \<le> length xs \<Longrightarrow> map (\<lambda>i. xs ! i) [a ..< a + n] = take n (drop a xs)"
  by (simp add: list_eq_iff_nth_eq)

lemma GetPixel_in_range:
  assumes "unat idx * unat nbBands + unat nbBands \<le> length inPix" and "length inPix < 2 ^ 32"
  shows "GetPixel inPix idx nbBands
         = Inr (take (unat nbBands) (drop (unat idx * unat nbBands) inPix))"
proof -
  have "unat idx * unat nbBands < 2 ^ LENGTH(32)"
    using assms by simp
  then have start: "unat (idx * nbBands) = unat idx * unat nbBands"
    by (simp only: unat_mult_lem)
  have "unat (idx * nbBands) + unat nbBands < 2 ^ LENGTH(32)"
    using assms start by simp
  then have "unat (idx * nbBands + nbBands) = unat (idx * nbBands) + unat nbBands"
    and le: "idx * nbBands \<le> idx * nbBands + nbBands"
    using unat_add_lem [of "idx * nbBands" nbBands] no_olen_add_nat [of "idx * nbBands" nbBands]
    by blast+
  then have stop: "unat (idx * nbBands + nbBands) = unat idx * unat nbBands + unat nbBands"
    using start by simp
  show ?thesis
    using assms(1) le
    by (simp add: GetPixel_def Let_def start stop map_nth_upt_take_drop)
qed

lemma IsNoData_list_all: "IsNoData pix nd = list_all (\<lambda>v. v = nd) pix"
  by (induction pix) auto

lemma fill_bands_write_bands:
  "fill_bands outPix outBand n v = write_bands outPix outBand (replicate n v)"
  by (induction n arbitrary: outPix outBand) simp_all

lemma write_bands_append:
  "length old = length pix \<Longrightarrow>
   write_bands (filled @ old @ rest) (length filled) pix
     = Inr (filled @ map Some pix @ rest, length filled + length pix)"
proof (induction pix arbitrary: filled old)
  case Nil
  then show ?case by simp
next
  case (Cons v pix)
  then obtain u old' where old: "old = u # old'" "length old' = length pix"
    by (cases old) auto
  have "write_bands (filled @ old @ rest) (length filled) (v # pix)
        = write_bands ((filled @ [Some v]) @ old' @ rest) (length (filled @ [Some v])) pix"
    by (simp add: old)
  also have "\<dots> = Inr ((filled @ [Some v]) @ map Some pix @ rest,
                      length (filled @ [Some v]) + length pix)"
    using Cons.IH [OF old(2)] by blast
  finally show ?case by simp
qed

lemma length_sentinel_slot:
  "length (sentinel_slot f) = unat (m_SARNbBands f) + unat (m_OptNbBands f)"
  by (simp add: sentinel_slot_def)

lemma init_slots_blank:
  "init_slots f
     (filled @ replicate (n * (unat (m_SARNbBands f) + unat (m_OptNbBands f))) None)
     (length filled) n
   = Inr (filled @ map Some (concat (replicate n (sentinel_slot f))),
          length filled + n * (unat (m_SARNbBands f) + unat (m_OptNbBands f)))"
proof (induction n arbitrary: filled)
  case 0
  then show ?case by simp
next
  case (Suc n)
  let ?r = "unat (m_SARNbBands f)" and ?p = "unat (m_OptNbBands f)"
  let ?sar = "replicate ?r (m_SARNoDataValue f)" and ?opt = "replicate ?p (m_OptNoDataValue f)"
  let ?rest = "replicate (n * (?r + ?p)) (None :: 'a option)"
  have buf: "filled @ replicate (Suc n * (?r + ?p)) None
             = filled @ replicate ?r None @ (replicate ?p None @ ?rest)"
    by (simp add: replicate_add [symmetric] add.assoc)
  have 1: "fill_bands (filled @ replicate ?r None @ (replicate ?p None @ ?rest)) (length filled)
             ?r (m_SARNoDataValue f)
           = Inr (filled @ map Some ?sar @ (replicate ?p None @ ?rest), length filled + ?r)"
    using write_bands_append [of "replicate ?r None" ?sar filled "replicate ?p None @ ?rest"]
    by (simp add: fill_bands_write_bands)
  have 2: "fill_bands ((filled @ map Some ?sar) @ replicate ?p None @ ?rest)
             (length (filled @ map Some ?sar)) ?p (m_OptNoDataValue f)
           = Inr ((filled @ map Some ?sar) @ map Some ?opt @ ?rest,
                  length (filled @ map Some ?sar) + ?p)"
    using write_bands_append [of "replicate ?p None" ?opt "filled @ map Some ?sar" ?rest]
    by (simp add: fill_bands_write_bands)
  have 3: "init_slots f ((filled @ map Some (sentinel_slot f)) @ ?rest)
             (length (filled @ map Some (sentinel_slot f))) n
           = Inr ((filled @ map Some (sentinel_slot f)) @ map Some (concat (replicate n (sentinel_slot f))),
                  length (filled @ map Some (sentinel_slot f)) + n * (?r + ?p))"
    by (rule Suc.IH)
  have s: "filled @ map Some ?sar @ map Some ?opt @ ?rest
           = (filled @ map Some (sentinel_slot f)) @ ?rest"
    by (simp add: sentinel_slot_def)
  show ?case
    unfolding buf using 1 2 3
    by (simp add: s length_sentinel_slot add.assoc) (simp add: sentinel_slot_def)
qed

lemma OutputSize_no_overflow:
  assumes "unat (m_NbOutputImages f) * (unat (m_SARNbBands f) + unat (m_OptNbBands f)) < 2 ^ 32"
  shows "OutputSize f
         = unat (m_NbOutputImages f) * (unat (m_SARNbBands f) + unat (m_OptNbBands f))"
proof (cases "unat (m_NbOutputImages f) = 0")
  case True
  then have "m_NbOutputImages f = 0"
    by (simp add: unat_eq_0)
  then show ?thesis
    by (simp add: OutputSize_def)
next
  case False
  then have "unat (m_SARNbBands f) + unat (m_OptNbBands f)
             \<le> unat (m_NbOutputImages f) * (unat (m_SARNbBands f) + unat (m_OptNbBands f))"
    by (cases "unat (m_NbOutputImages f)") simp_all
  from le_less_trans [OF this assms]
  have "unat (m_SARNbBands f) + unat (m_OptNbBands f) < 2 ^ LENGTH(32)"
    by simp
  then have sum: "unat (m_SARNbBands f + m_OptNbBands f)
                  = unat (m_SARNbBands f) + unat (m_OptNbBands f)"
    by (simp only: unat_add_lem)
  have "unat (m_NbOutputImages f) * unat (m_SARNbBands f + m_OptNbBands f) < 2 ^ LENGTH(32)"
    using assms sum by simp
  then have "unat (m_NbOutputImages f * (m_SARNbBands f + m_OptNbBands f))
             = unat (m_NbOutputImages f) * unat (m_SARNbBands f + m_OptNbBands f)"
    by (simp only: unat_mult_lem)
  then show ?thesis
    by (simp add: OutputSize_def sum)
qed

lemma init_slots_operator:
  assumes "unat (m_NbOutputImages f) * (unat (m_SARNbBands f) + unat (m_OptNbBands f)) < 2 ^ 32"
  shows "init_slots f (replicate (OutputSize f) None) 0 (unat (m_NbOutputImages f))
         = Inr (map Some (concat (replicate (unat (m_NbOutputImages f)) (sentinel_slot f))),
                OutputSize f)"
  using init_slots_blank [of f "[]" "unat (m_NbOutputImages f)"]
  by (simp add: OutputSize_no_overflow [OF assms])

lemma return_pixel_Some: "return_pixel (map Some vs) = Inr vs"
  by (induction vs) simp_all

lemma length_sar_subpixel:
  "pair_in_range f sar opt pair \<Longrightarrow> length (sar_subpixel f sar pair) = unat (m_SARNbBands f)"
  by (auto simp add: pair_in_range_def sar_subpixel_def)

lemma length_opt_subpixel:
  "pair_in_range f sar opt pair \<Longrightarrow> length (opt_subpixel f opt pair) = unat (m_OptNbBands f)"
  by (auto simp add: pair_in_range_def opt_subpixel_def)

lemma GetPixel_sar:
  "pair_in_range f sar opt pair \<Longrightarrow> length sar < 2 ^ 32 \<Longrightarrow>
   GetPixel sar (fst pair) (m_SARNbBands f) = Inr (sar_subpixel f sar pair)"
  by (simp add: GetPixel_in_range pair_in_range_def sar_subpixel_def)

lemma GetPixel_opt:
  "pair_in_range f sar opt pair \<Longrightarrow> length opt < 2 ^ 32 \<Longrightarrow>
   GetPixel opt (snd pair) (m_OptNbBands f) = Inr (opt_subpixel f opt pair)"
  by (simp add: GetPixel_in_range pair_in_range_def opt_subpixel_def)

lemma write_slot:
  assumes "pair_in_range f sar opt pair"
  shows "write_bands (map Some (filled @ sentinel_slot f @ rest)) (length filled)
           (sar_subpixel f sar pair)
         = Inr (map Some (filled @ sar_subpixel f sar pair)
                  @ map Some (replicate (unat (m_OptNbBands f)) (m_OptNoDataValue f)) @ map Some rest,
                length (filled @ sar_subpixel f sar pair))"
    and "write_bands (map Some (filled @ sar_subpixel f sar pair)
                  @ map Some (replicate (unat (m_OptNbBands f)) (m_OptNoDataValue f)) @ map Some rest)
           (length (filled @ sar_subpixel f sar pair)) (opt_subpixel f opt pair)
         = Inr (map Some (filled @ pair_slot f sar opt pair @ rest),
                length (filled @ pair_slot f sar opt pair))"
proof -
  let ?sp = "sar_subpixel f sar pair" and ?ox = "opt_subpixel f opt pair"
  let ?a = "replicate (unat (m_SARNbBands f)) (m_SARNoDataValue f)"
  let ?b = "replicate (unat (m_OptNbBands f)) (m_OptNoDataValue f)"
  show "write_bands (map Some (filled @ sentinel_slot f @ rest)) (length filled) ?sp
         = Inr (map Some (filled @ ?sp) @ map Some ?b @ map Some rest, length (filled @ ?sp))"
    using write_bands_append [of "map Some ?a" ?sp "map Some filled" "map Some ?b @ map Some rest"]
      length_sar_subpixel [OF assms]
    by (simp add: sentinel_slot_def)
  show "write_bands (map Some (filled @ ?sp) @ map Some ?b @ map Some rest)
           (length (filled @ ?sp)) ?ox
         = Inr (map Some (filled @ pair_slot f sar opt pair @ rest),
                length (filled @ pair_slot f sar opt pair))"
    using write_bands_append [of "map Some ?b" ?ox "map Some (filled @ ?sp)" "map Some rest"]
      length_opt_subpixel [OF assms]
    by (simp add: pair_slot_def add.assoc)
qed

lemma scan_pairs_step:
  assumes "pair_in_range f sar opt pair" "length sar < 2 ^ 32" "length opt < 2 ^ 32"
    and "cur < unat (m_NbOutputImages f)"
  shows "scan_pairs f sar opt (pair # rest) (map Some (filled @ sentinel_slot f @ tail))
           (length filled) cur
         = (if valid_pair f sar opt pair
            then scan_pairs f sar opt rest (map Some (filled @ pair_slot f sar opt pair @ tail))
                   (length (filled @ pair_slot f sar opt pair)) (Suc cur)
            else scan_pairs f sar opt rest (map Some (filled @ sentinel_slot f @ tail))
                   (length filled) cur)"
proof -
  note gs = GetPixel_sar [OF assms(1,2)] and go = GetPixel_opt [OF assms(1,3)]
  show ?thesis
  proof (cases "valid_pair f sar opt pair")
    case True
    then show ?thesis
      using assms(4) write_slot [OF assms(1), of filled tail]
      by (simp add: gs go IsNoData_list_all valid_pair_def del: length_append map_append)
  next
    case False
    then show ?thesis
      using assms(4) by (auto simp add: gs go IsNoData_list_all valid_pair_def)
  qed
qed

lemma scan_pairs_general:
  assumes "\<forall>pair\<in>set ps. pair_in_range f sar opt pair"
    and "length sar < 2 ^ 32" "length opt < 2 ^ 32"
  shows "scan_pairs f sar opt ps
           (map Some (filled @ concat (replicate (unat (m_NbOutputImages f) - cur) (sentinel_slot f))))
           (length filled) cur
         = Inr (map Some (filled
                @ concat (map (pair_slot f sar opt)
                    (take (unat (m_NbOutputImages f) - cur) (filter (valid_pair f sar opt) ps)))
                @ concat (replicate
                    (unat (m_NbOutputImages f) - cur - length (filter (valid_pair f sar opt) ps))
                    (sentinel_slot f))))"
  using assms(1)
proof (induction ps arbitrary: filled cur)
  case Nil
  then show ?case by simp
next
  case (Cons pair ps)
  show ?case
  proof (cases "cur < unat (m_NbOutputImages f)")
    case False
    then show ?thesis by simp
  next
    case True
    then obtain m where m: "unat (m_NbOutputImages f) - cur = Suc m"
      by (metis Suc_diff_Suc)
    then have m': "unat (m_NbOutputImages f) - Suc cur = m" by simp
    have rng: "pair_in_range f sar opt pair" "\<forall>pair\<in>set ps. pair_in_range f sar opt pair"
      using Cons.prems by simp_all
    have step: "scan_pairs f sar opt (pair # ps)
                  (map Some (filled @ concat (replicate (unat (m_NbOutputImages f) - cur) (sentinel_slot f))))
                  (length filled) cur
         = (if valid_pair f sar opt pair
            then scan_pairs f sar opt ps
                   (map Some ((filled @ pair_slot f sar opt pair)
                      @ concat (replicate (unat (m_NbOutputImages f) - Suc cur) (sentinel_slot f))))
                   (length (filled @ pair_slot f sar opt pair)) (Suc cur)
            else scan_pairs f sar opt ps
                   (map Some (filled @ concat (replicate (unat (m_NbOutputImages f) - cur) (sentinel_slot f))))
                   (length filled) cur)"
      using scan_pairs_step [OF rng(1) assms(2,3) True, of ps filled
          "concat (replicate m (sentinel_slot f))"]
      by (simp add: m m' del: scan_pairs.simps length_append map_append)
    show ?thesis
    proof (cases "valid_pair f sar opt pair")
      case True
      show ?thesis
        unfolding step using True Cons.IH [OF rng(2), of "filled @ pair_slot f sar opt pair" "Suc cur"]
        by (simp add: m m' del: scan_pairs.simps length_append)
    next
      case False
      show ?thesis
        unfolding step using False Cons.IH [OF rng(2), of filled cur]
        by (simp del: scan_pairs.simps)
    qed
  qed
qed

lemma scan_pairs_ignores_rest:
  assumes "\<forall>pair\<in>set ps1. pair_in_range f sar opt pair"
    and "length sar < 2 ^ 32" "length opt < 2 ^ 32"
    and "unat (m_NbOutputImages f) - cur \<le> length (filter (valid_pair f sar opt) ps1)"
  shows "scan_pairs f sar opt (ps1 @ ps2) outPix outBand cur = scan_pairs f sar opt ps1 outPix outBand cur"
  using assms(1,4)
proof (induction ps1 arbitrary: outPix outBand cur)
  case Nil
  then have "\<not> cur < unat (m_NbOutputImages f)" by simp
  then show ?case by (cases ps2) simp_all
next
  case (Cons pair ps1)
  have rng: "pair_in_range f sar opt pair" "\<forall>pair\<in>set ps1. pair_in_range f sar opt pair"
    using Cons.prems by simp_all
  note gs = GetPixel_sar [OF rng(1) assms(2)] and go = GetPixel_opt [OF rng(1) assms(3)]
  show ?case
  proof (cases "valid_pair f sar opt pair")
    case True
    then have "unat (m_NbOutputImages f) - Suc cur \<le> length (filter (valid_pair f sar opt) ps1)"
      using Cons.prems(2) by simp
    from Cons.IH [OF rng(2) this] True show ?thesis
      by (simp add: gs go IsNoData_list_all valid_pair_def split: prod.splits sum.splits)
  next
    case False
    then have "unat (m_NbOutputImages f) - cur \<le> length (filter (valid_pair f sar opt) ps1)"
      using Cons.prems(2) by simp
    from Cons.IH [OF rng(2) this] False show ?thesis
      by (auto simp add: gs go IsNoData_list_all valid_pair_def)
  qed
qed

lemma operator_call_general:
  assumes "unat (m_NbOutputImages f) * (unat (m_SARNbBands f) + unat (m_OptNbBands f)) < 2 ^ 32"
    and "length sar < 2 ^ 32" "length opt < 2 ^ 32"
    and "\<forall>pair\<in>set (m_Pairs f). pair_in_range f sar opt pair"
  shows "operator_call f sar opt
         = Inr (concat (map (pair_slot f sar opt)
                   (take (unat (m_NbOutputImages f)) (filter (valid_pair f sar opt) (m_Pairs f))))
                @ concat (replicate
                    (unat (m_NbOutputImages f) - length (filter (valid_pair f sar opt) (m_Pairs f)))
                    (sentinel_slot f)))"
  using scan_pairs_general [OF assms(4,2,3), of "[]" 0]
  by (simp add: operator_call_def init_slots_operator [OF assms(1)] return_pixel_Some
      del: map_append)

lemma init_slots_update_pairs:
  "init_slots (f\<lparr>m_Pairs := ps\<rparr>) outPix outBand n = init_slots f outPix outBand n"
  by (induction n arbitrary: outPix outBand) (simp_all split: sum.splits prod.splits)

lemma scan_pairs_update_pairs:
  "scan_pairs (f\<lparr>m_Pairs := ps'\<rparr>) sar opt ps outPix outBand cur
   = scan_pairs f sar opt ps outPix outBand cur"
  by (induction ps arbitrary: outPix outBand cur) (simp_all split: sum.splits prod.splits)

lemma operator_call_prefix:
  assumes "m_Pairs f = ps1 @ ps2"
    and "length sar < 2 ^ 32" "length opt < 2 ^ 32"
    and "\<forall>pair\<in>set ps1. pair_in_range f sar opt pair"
    and "unat (m_NbOutputImages f) \<le> length (filter (valid_pair f sar opt) ps1)"
  shows "operator_call f sar opt = operator_call (f\<lparr>m_Pairs := ps1\<rparr>) sar opt"
proof -
  have "scan_pairs f sar opt (m_Pairs f) outPix 0 0 = scan_pairs f sar opt ps1 outPix 0 0" for outPix
    using scan_pairs_ignores_rest [OF assms(4,2,3), of 0 ps2] assms(1,5) by simp
  then show ?thesis
    by (simp add: operator_call_def init_slots_update_pairs scan_pairs_update_pairs OutputSize_def
        split: sum.splits prod.splits)
qed

lemma slot_of_concat:
  "\<forall>xs\<in>set xss. length xs = w \<Longrightarrow> i < length xss \<Longrightarrow>
   take w (drop (i * w) (concat xss)) = xss ! i"
proof (induction xss arbitrary: i)
  case Nil
  then show ?case by simp
next
  case (Cons xs xss)
  show ?case
  proof (cases i)
    case 0
    then show ?thesis using Cons.prems by simp
  next
    case (Suc j)
    then show ?thesis using Cons.prems Cons.IH [of j] by simp
  qed
qed

lemma length_concat_slots:
  "\<forall>xs\<in>set xss. length xs = w \<Longrightarrow> length (concat xss) = length xss * w"
  by (induction xss) simp_all

lemma length_pair_slot:
  "pair_in_range f sar opt pair \<Longrightarrow>
   length (pair_slot f sar opt pair) = unat (m_SARNbBands f) + unat (m_OptNbBands f)"
  by (simp add: pair_slot_def length_sar_subpixel length_opt_subpixel)

lemma output_slots:
  assumes "\<forall>pair\<in>set vs. pair_in_range f sar opt pair"
  shows "i < length vs + k \<Longrightarrow>
         output_slot f (concat (map (pair_slot f sar opt) vs) @ concat (replicate k (sentinel_slot f))) i
         = (if i < length vs then pair_slot f sar opt (vs ! i) else sentinel_slot f)"
    and "length (concat (map (pair_slot f sar opt) vs) @ concat (replicate k (sentinel_slot f)))
         = (length vs + k) * (unat (m_SARNbBands f) + unat (m_OptNbBands f))"
proof -
  let ?xss = "map (pair_slot f sar opt) vs @ replicate k (sentinel_slot f)"
  have len: "\<forall>xs\<in>set ?xss. length xs = unat (m_SARNbBands f) + unat (m_OptNbBands f)"
    using assms by (auto simp add: length_pair_slot length_sentinel_slot)
  show "length (concat (map (pair_slot f sar opt) vs) @ concat (replicate k (sentinel_slot f)))
         = (length vs + k) * (unat (m_SARNbBands f) + unat (m_OptNbBands f))"
    using length_concat_slots [OF len] by simp
  assume i: "i < length vs + k"
  have "output_slot f (concat ?xss) i = ?xss ! i"
    unfolding output_slot_def using slot_of_concat [OF len] i by simp
  then show "output_slot f (concat (map (pair_slot f sar opt) vs) @ concat (replicate k (sentinel_slot f))) i
         = (if i < length vs then pair_slot f sar opt (vs ! i) else sentinel_slot f)"
    using i by (simp add: nth_append)
qed

lemma write_bands_past_end:
  "outBand \<le> length outPix \<Longrightarrow> length outPix < outBand + length pix \<Longrightarrow>
   write_bands outPix outBand pix = Inl OutOfBounds"
  by (induction pix arbitrary: outPix outBand) auto

lemma write_bands_inside:
  "outBand + length pix \<le> length outPix \<Longrightarrow>
   \<exists>outPix'. write_bands outPix outBand pix = Inr (outPix', outBand + length pix)
      \<and> length outPix' = length outPix"
proof (induction pix arbitrary: outPix outBand)
  case Nil
  then show ?case by simp
next
  case (Cons v pix)
  then have "Suc outBand + length pix \<le> length (outPix[outBand := Some v])"
    by simp
  from Cons.IH [OF this] Cons.prems show ?case
    by auto
qed

lemma init_slots_past_end:
  "outBand \<le> length outPix \<Longrightarrow>
   length outPix < outBand + n * (unat (m_SARNbBands f) + unat (m_OptNbBands f)) \<Longrightarrow>
   init_slots f outPix outBand n = Inl OutOfBounds"
proof (induction n arbitrary: outPix outBand)
  case 0
  then show ?case by simp
next
  case (Suc n)
  let ?r = "unat (m_SARNbBands f)" and ?p = "unat (m_OptNbBands f)"
  show ?case
  proof (cases "length outPix < outBand + ?r")
    case True
    then show ?thesis
      using Suc.prems(1) write_bands_past_end [of outBand outPix "replicate ?r (m_SARNoDataValue f)"]
      by (simp add: fill_bands_write_bands)
  next
    case False
    then have "outBand + length (replicate ?r (m_SARNoDataValue f)) \<le> length outPix"
      by simp
    from write_bands_inside [OF this] obtain outPix1 where
      1: "fill_bands outPix outBand ?r (m_SARNoDataValue f) = Inr (outPix1, outBand + ?r)"
        "length outPix1 = length outPix"
      by (auto simp add: fill_bands_write_bands)
    show ?thesis
    proof (cases "length outPix < outBand + ?r + ?p")
      case True
      then show ?thesis
        using False 1 write_bands_past_end [of "outBand + ?r" outPix1 "replicate ?p (m_OptNoDataValue f)"]
        by (simp add: fill_bands_write_bands)
    next
      case False
      then have "outBand + ?r + length (replicate ?p (m_OptNoDataValue f)) \<le> length outPix1"
        using 1 by simp
      from write_bands_inside [OF this] obtain outPix2 where
        2: "fill_bands outPix1 (outBand + ?r) ?p (m_OptNoDataValue f) = Inr (outPix2, outBand + ?r + ?p)"
          "length outPix2 = length outPix1"
        by (auto simp add: fill_bands_write_bands)
      have "init_slots f outPix2 (outBand + ?r + ?p) n = Inl OutOfBounds"
        using Suc.prems(2) False 1(2) 2(2) by (intro Suc.IH) (simp_all add: algebra_simps)
      then show ?thesis
        using 1 2 by simp
    qed
  qed
qed

text \<open>
  When the number of bands of the output does not fit in 32 bits, the size computed by
  \<open>operator()\<close> wraps and the first loop writes past the end of the output pixel.
\<close>

lemma operator_call_size_overflow:
  assumes "2 ^ 32 \<le> unat (m_NbOutputImages f) * (unat (m_SARNbBands f) + unat (m_OptNbBands f))"
  shows "operator_call f sar opt = Inl OutOfBounds"
proof -
  have "OutputSize f < 2 ^ LENGTH(32)"
    unfolding OutputSize_def by (rule unsigned_less)
  then have "length (replicate (OutputSize f) (None :: 'a option))
             < 0 + unat (m_NbOutputImages f) * (unat (m_SARNbBands f) + unat (m_OptNbBands f))"
    using assms by simp
  then have "init_slots f (replicate (OutputSize f) None) 0 (unat (m_NbOutputImages f))
             = Inl OutOfBounds"
    by (intro init_slots_past_end) simp_all
  then show ?thesis
    by (simp add: operator_call_def)
qed

text \<open>
  For two outputs of \<open>2^31 - 1\<close> SAR bands and one optical band the size is \<open>2^32\<close>, which
  wraps to 0.
\<close>

lemma size_overflow_example:
  "operator_call (SetParameters [(0, 0), (0, 0)] 2147483647 1 (0::int) (- 9999) 2) sar opt
   = Inl OutOfBounds"
  by (rule operator_call_size_overflow) (simp add: SetParameters_def)

text \<open>
  C1. Let the output size fit in 32 bits and the two stacked pixels be shorter than \<open>2^32\<close>
  bands (the sizes of a pixel are \<open>unsigned int\<close>). When the pairs are \<open>ps1 @ ps2\<close>, every
  pair of \<open>ps1\<close> is in range and at least \<open>m_NbOutputImages\<close> pairs of \<open>ps1\<close> are valid for
  the pixel, the output is the concatenation of the sub-pixels of the first
  \<open>m_NbOutputImages\<close> valid pairs, in the order of the list: it has \<open>OutputSize\<close> bands and
  slot \<open>i\<close> holds the \<open>i\<close>-th valid pair. The pairs \<open>ps2\<close> have no effect: the output is that
  of the functor configured with \<open>ps1\<close> alone (the pairs of \<open>ps2\<close> may even be out of range).
\<close>

theorem C1_first_valid_pairs:
  assumes "m_Pairs f = ps1 @ ps2"
    and "unat (m_NbOutputImages f) * (unat (m_SARNbBands f) + unat (m_OptNbBands f)) < 2 ^ 32"
    and "length sar < 2 ^ 32" and "length opt < 2 ^ 32"
    and "\<forall>pair\<in>set ps1. pair_in_range f sar opt pair"
    and "unat (m_NbOutputImages f) \<le> length (filter (valid_pair f sar opt) ps1)"
  shows "\<exists>outPix. operator_call f sar opt = Inr outPix
           \<and> outPix = concat (map (pair_slot f sar opt)
                         (take (unat (m_NbOutputImages f)) (filter (valid_pair f sar opt) ps1)))
           \<and> length outPix = OutputSize f
           \<and> (\<forall>i<unat (m_NbOutputImages f).
                 output_slot f outPix i = pair_slot f sar opt (filter (valid_pair f sar opt) ps1 ! i))
           \<and> operator_call (f\<lparr>m_Pairs := ps1\<rparr>) sar opt = Inr outPix"
proof -
  let ?g = "f\<lparr>m_Pairs := ps1\<rparr>"
  let ?n = "unat (m_NbOutputImages f)"
  let ?vs = "take ?n (filter (valid_pair f sar opt) ps1)"
  have defs: "pair_in_range ?g = pair_in_range f" "valid_pair ?g = valid_pair f"
    "pair_slot ?g = pair_slot f" "sentinel_slot ?g = sentinel_slot f"
    by (simp_all add: fun_eq_iff pair_in_range_def valid_pair_def pair_slot_def
        sar_subpixel_def opt_subpixel_def sentinel_slot_def)
  have size: "unat (m_NbOutputImages ?g) * (unat (m_SARNbBands ?g) + unat (m_OptNbBands ?g)) < 2 ^ 32"
    using assms(2) by simp
  have rng: "\<forall>pair\<in>set (m_Pairs ?g). pair_in_range ?g sar opt pair"
    using assms(5) by (simp add: defs)
  have g: "operator_call ?g sar opt = Inr (concat (map (pair_slot f sar opt) ?vs))"
    using operator_call_general [OF size assms(3,4) rng] assms(6) by (simp add: defs)
  have f: "operator_call f sar opt = operator_call ?g sar opt"
    by (rule operator_call_prefix [OF assms(1,3,4,5,6)])
  have vs_rng: "\<forall>pair\<in>set ?vs. pair_in_range f sar opt pair"
    using assms(5) by (auto dest: in_set_takeD)
  have len: "length ?vs = ?n"
    using assms(6) by simp
  have slots: "output_slot f (concat (map (pair_slot f sar opt) ?vs)) i
               = pair_slot f sar opt (filter (valid_pair f sar opt) ps1 ! i)"
    if "i < ?n" for i
    using output_slots(1) [OF vs_rng, of i 0] that len by simp
  have total: "length (concat (map (pair_slot f sar opt) ?vs)) = OutputSize f"
    using output_slots(2) [OF vs_rng, of 0] len by (simp add: OutputSize_no_overflow [OF assms(2)])
  show ?thesis
    using f g slots total by simp
qed

theorem C1_witness:
  "m_Pairs (SetParameters [(0, 0), (1, 0), (7, 7)] 2 1 (0::int) (- 9999) 1) = [(0, 0), (1, 0)] @ [(7, 7)]
   \<and> unat (1 :: 32 word) * (unat (2 :: 32 word) + unat (1 :: 32 word)) < (2::nat) ^ 32
   \<and> length [0, 0, 5, 5 :: int] < 2 ^ 32 \<and> length [7 :: int] < 2 ^ 32
   \<and> pair_in_range (SetParameters [(0, 0), (1, 0), (7, 7)] 2 1 (0::int) (- 9999) 1) [0, 0, 5, 5] [7] (0, 0)
   \<and> pair_in_range (SetParameters [(0, 0), (1, 0), (7, 7)] 2 1 (0::int) (- 9999) 1) [0, 0, 5, 5] [7] (1, 0)
   \<and> unat (m_NbOutputImages (SetParameters [(0, 0), (1, 0), (7, 7)] 2 1 (0::int) (- 9999) 1))
       \<le> length (filter (valid_pair (SetParameters [(0, 0), (1, 0), (7, 7)] 2 1 (0::int) (- 9999) 1)
                          [0, 0, 5, 5] [7]) [(0, 0), (1, 0)])
   \<and> operator_call (SetParameters [(0, 0), (1, 0), (7, 7)] 2 1 (0::int) (- 9999) 1) [0, 0, 5, 5] [7]
       = Inr [5, 5, 7]
   \<and> operator_call (SetParameters [(0, 0), (1, 0)] 2 1 (0::int) (- 9999) 1) [0, 0, 5, 5] [7]
       = Inr [5, 5, 7]"
proof -
  let ?f = "SetParameters [(0, 0), (1, 0), (7, 7)] 2 1 (0::int) (- 9999) 1"
  have h1: "m_Pairs ?f = [(0, 0), (1, 0)] @ [(7, 7)]"
    by (simp add: SetParameters_def)
  have h2: "unat (m_NbOutputImages ?f) * (unat (m_SARNbBands ?f) + unat (m_OptNbBands ?f)) < 2 ^ 32"
    by (simp add: SetParameters_def)
  have h3: "length [0, 0, 5, 5 :: int] < 2 ^ 32" and h4: "length [7 :: int] < 2 ^ 32"
    by simp_all
  have h5: "\<forall>pair\<in>set [(0, 0), (1, 0)]. pair_in_range ?f [0, 0, 5, 5] [7] pair"
    by (simp add: SetParameters_def pair_in_range_def)
  have v: "filter (valid_pair ?f [0, 0, 5, 5] [7]) [(0, 0), (1, 0)] = [(1, 0)]"
    by (simp add: SetParameters_def valid_pair_def sar_subpixel_def opt_subpixel_def)
  have h6: "unat (m_NbOutputImages ?f) \<le> length (filter (valid_pair ?f [0, 0, 5, 5] [7]) [(0, 0), (1, 0)])"
    unfolding v by (simp add: SetParameters_def)
  have val: "concat (map (pair_slot ?f [0, 0, 5, 5] [7])
                 (take (unat (m_NbOutputImages ?f)) [(1, 0)])) = [5, 5, 7]"
    by (simp add: SetParameters_def pair_slot_def sar_subpixel_def opt_subpixel_def)
  have upd: "?f\<lparr>m_Pairs := [(0, 0), (1, 0)]\<rparr> = SetParameters [(0, 0), (1, 0)] 2 1 (0::int) (- 9999) 1"
    by (simp add: SetParameters_def)
  from C1_first_valid_pairs [OF h1 h2 h3 h4 h5 h6] obtain outPix where
    out: "operator_call ?f [0, 0, 5, 5] [7] = Inr outPix"
      "outPix = concat (map (pair_slot ?f [0, 0, 5, 5] [7])
                  (take (unat (m_NbOutputImages ?f))
                     (filter (valid_pair ?f [0, 0, 5, 5] [7]) [(0, 0), (1, 0)])))"
      "operator_call (?f\<lparr>m_Pairs := [(0, 0), (1, 0)]\<rparr>) [0, 0, 5, 5] [7] = Inr outPix"
    by blast
  have o: "outPix = [5, 5, 7]"
    by (simp only: out(2) v val)
  have c1: "pair_in_range ?f [0, 0, 5, 5] [7] (0, 0)" and c2: "pair_in_range ?f [0, 0, 5, 5] [7] (1, 0)"
    using h5 by simp_all
  have c3: "unat (1 :: 32 word) * (unat (2 :: 32 word) + unat (1 :: 32 word)) < (2::nat) ^ 32"
    by simp
  have r1: "operator_call ?f [0, 0, 5, 5] [7] = Inr [5, 5, 7]"
    using out(1) o by simp
  have r2: "operator_call (SetParameters [(0, 0), (1, 0)] 2 1 (0::int) (- 9999) 1) [0, 0, 5, 5] [7]
            = Inr [5, 5, 7]"
    using out(3) o by (simp only: upd)
  show ?thesis
    using h1 c3 h3 h4 c1 c2 h6 r1 r2 by blast
qed

text \<open>
  C2. Let the output size fit in 32 bits, the two stacked pixels be shorter than \<open>2^32\<close>
  bands and every pair be in range. When fewer than \<open>m_NbOutputImages\<close> pairs are valid for
  the pixel, the output is the sub-pixels of the valid pairs, in the order of the list,
  followed by one sentinel fill for each remaining slot: \<open>m_SARNoDataValue\<close> repeated
  \<open>m_SARNbBands\<close> times, then \<open>m_OptNoDataValue\<close> repeated \<open>m_OptNbBands\<close> times. Every
  slot is either the whole sub-pixel pair of one valid pair or the whole sentinel fill.
\<close>

theorem C2_trailing_no_data:
  assumes "unat (m_NbOutputImages f) * (unat (m_SARNbBands f) + unat (m_OptNbBands f)) < 2 ^ 32"
    and "length sar < 2 ^ 32" and "length opt < 2 ^ 32"
    and "\<forall>pair\<in>set (m_Pairs f). pair_in_range f sar opt pair"
    and "length (filter (valid_pair f sar opt) (m_Pairs f)) < unat (m_NbOutputImages f)"
  shows "\<exists>outPix. operator_call f sar opt = Inr outPix
           \<and> outPix = concat (map (pair_slot f sar opt) (filter (valid_pair f sar opt) (m_Pairs f)))
                      @ concat (replicate
                          (unat (m_NbOutputImages f) - length (filter (valid_pair f sar opt) (m_Pairs f)))
                          (replicate (unat (m_SARNbBands f)) (m_SARNoDataValue f)
                           @ replicate (unat (m_OptNbBands f)) (m_OptNoDataValue f)))
           \<and> length outPix = OutputSize f
           \<and> (\<forall>i<unat (m_NbOutputImages f).
                 output_slot f outPix i
                 = (if i < length (filter (valid_pair f sar opt) (m_Pairs f))
                    then pair_slot f sar opt (filter (valid_pair f sar opt) (m_Pairs f) ! i)
                    else replicate (unat (m_SARNbBands f)) (m_SARNoDataValue f)
                         @ replicate (unat (m_OptNbBands f)) (m_OptNoDataValue f)))"
proof -
  let ?vs = "filter (valid_pair f sar opt) (m_Pairs f)"
  let ?k = "unat (m_NbOutputImages f) - length ?vs"
  let ?out = "concat (map (pair_slot f sar opt) ?vs) @ concat (replicate ?k (sentinel_slot f))"
  have out: "operator_call f sar opt = Inr ?out"
    using operator_call_general [OF assms(1,2,3,4)] assms(5) by simp
  have vs_rng: "\<forall>pair\<in>set ?vs. pair_in_range f sar opt pair"
    using assms(4) by simp
  have slots: "output_slot f ?out i
               = (if i < length ?vs then pair_slot f sar opt (?vs ! i) else sentinel_slot f)"
    if "i < unat (m_NbOutputImages f)" for i
    using output_slots(1) [OF vs_rng, of i ?k] that assms(5) by simp
  have total: "length ?out = OutputSize f"
    using output_slots(2) [OF vs_rng, of ?k] assms(5)
    by (simp add: OutputSize_no_overflow [OF assms(1)])
  show ?thesis
    using out slots total unfolding sentinel_slot_def by simp
qed

theorem C2_witness:
  "unat (2 :: 32 word) * (unat (2 :: 32 word) + unat (1 :: 32 word)) < (2::nat) ^ 32
   \<and> length [0, 0, 5, 5 :: int] < 2 ^ 32 \<and> length [7 :: int] < 2 ^ 32
   \<and> pair_in_range (SetParameters [(0, 0), (1, 0)] 2 1 (0::int) (- 9999) 2) [0, 0, 5, 5] [7] (0, 0)
   \<and> pair_in_range (SetParameters [(0, 0), (1, 0)] 2 1 (0::int) (- 9999) 2) [0, 0, 5, 5] [7] (1, 0)
   \<and> length (filter (valid_pair (SetParameters [(0, 0), (1, 0)] 2 1 (0::int) (- 9999) 2)
                  [0, 0, 5, 5] [7]) [(0, 0), (1, 0)]) < unat (2 :: 32 word)
   \<and> operator_call (SetParameters [(0, 0), (1, 0)] 2 1 (0::int) (- 9999) 2) [0, 0, 5, 5] [7]
       = Inr [5, 5, 7, 0, 0, - 9999]"
proof -
  let ?f = "SetParameters [(0, 0), (1, 0)] 2 1 (0::int) (- 9999) 2"
  have p: "m_Pairs ?f = [(0, 0), (1, 0)]" and n: "m_NbOutputImages ?f = 2"
    by (simp_all add: SetParameters_def)
  have h1: "unat (m_NbOutputImages ?f) * (unat (m_SARNbBands ?f) + unat (m_OptNbBands ?f)) < 2 ^ 32"
    by (simp add: SetParameters_def)
  have h2: "length [0, 0, 5, 5 :: int] < 2 ^ 32" and h3: "length [7 :: int] < 2 ^ 32"
    by simp_all
  have h4: "\<forall>pair\<in>set (m_Pairs ?f). pair_in_range ?f [0, 0, 5, 5] [7] pair"
    by (simp add: SetParameters_def pair_in_range_def)
  have v: "filter (valid_pair ?f [0, 0, 5, 5] [7]) (m_Pairs ?f) = [(1, 0)]"
    by (simp add: SetParameters_def valid_pair_def sar_subpixel_def opt_subpixel_def)
  have h5: "length (filter (valid_pair ?f [0, 0, 5, 5] [7]) (m_Pairs ?f)) < unat (m_NbOutputImages ?f)"
    unfolding v by (simp add: SetParameters_def)
  have val: "concat (map (pair_slot ?f [0, 0, 5, 5] [7]) [(1, 0)])
               @ concat (replicate (unat (m_NbOutputImages ?f) - length [(1 :: 32 word, 0 :: 32 word)])
                   (replicate (unat (m_SARNbBands ?f)) (m_SARNoDataValue ?f)
                    @ replicate (unat (m_OptNbBands ?f)) (m_OptNoDataValue ?f)))
             = [5, 5, 7, 0, 0, - 9999]"
    by (simp add: SetParameters_def pair_slot_def sar_subpixel_def opt_subpixel_def)
      (simp add: numeral_2_eq_2)
  from C2_trailing_no_data [OF h1 h2 h3 h4 h5] obtain outPix where
    out: "operator_call ?f [0, 0, 5, 5] [7] = Inr outPix"
      "outPix = concat (map (pair_slot ?f [0, 0, 5, 5] [7])
                   (filter (valid_pair ?f [0, 0, 5, 5] [7]) (m_Pairs ?f)))
                @ concat (replicate
                    (unat (m_NbOutputImages ?f) - length (filter (valid_pair ?f [0, 0, 5, 5] [7]) (m_Pairs ?f)))
                    (replicate (unat (m_SARNbBands ?f)) (m_SARNoDataValue ?f)
                     @ replicate (unat (m_OptNbBands ?f)) (m_OptNoDataValue ?f)))"
    by blast
  have "outPix = [5, 5, 7, 0, 0, - 9999]"
    by (simp only: out(2) v val)
  with out(1) have c4: "operator_call ?f [0, 0, 5, 5] [7] = Inr [5, 5, 7, 0, 0, - 9999]"
    by simp
  have c1: "pair_in_range ?f [0, 0, 5, 5] [7] (0, 0)" and c2: "pair_in_range ?f [0, 0, 5, 5] [7] (1, 0)"
    using h4 unfolding p by simp_all
  have c3: "length (filter (valid_pair ?f [0, 0, 5, 5] [7]) [(0, 0), (1, 0)]) < unat (2 :: 32 word)"
    using h5 by (simp only: p n)
  have c0: "unat (2 :: 32 word) * (unat (2 :: 32 word) + unat (1 :: 32 word)) < (2::nat) ^ 32"
    by simp
  show ?thesis
    using c0 h2 h3 c1 c2 c3 c4 by blast
qed

text \<open>
  C7. With two SAR bands, one optical band, one output, no-data values 0 and -9999 and the
  pairs (0,0), (1,0), the functor maps the SAR pixel [0,0,5,5] and the optical pixel [7]
  to [5,5,7]: the SAR bands of image 0 are all no-data, so the pair (0,0) is skipped, and
  the pair (1,0) fills the only slot.
\<close>

theorem C7_example:
  "GetPixel [0, 0, 5, 5] 0 2 = Inr [0, 0 :: int] \<and> IsNoData [0, 0] (0::int)
   \<and> GetPixel [0, 0, 5, 5] 1 2 = Inr [5, 5 :: int] \<and> \<not> IsNoData [5, 5] (0::int)
   \<and> GetPixel [7] 0 1 = Inr [7 :: int] \<and> \<not> IsNoData [7] (- 9999 :: int)
   \<and> operator_call (SetParameters [(0, 0), (1, 0)] 2 1 (0::int) (- 9999) 1) [0, 0, 5, 5] [7]
       = Inr [5, 5, 7]"
  by code_simp

text \<open>
  C10. \<open>operator!=\<close> is false and \<open>operator==\<close> is true for any two functors, whatever
  their parameters.
\<close>

theorem C10_all_functors_equal:
  "\<not> operator_ne (f :: 'a PixelFunction) g \<and> operator_eq f g"
  by (simp add: operator_ne_def operator_eq_def)

subsection \<open>The pair matcher\<close>

lemma strict_weak_ordering_less:
  fixes key :: "'e \<Rightarrow> 'k::linorder"
  shows "strict_weak_ordering (\<lambda>a b. key a < key b)"
  unfolding strict_weak_ordering_def by auto

lemma strict_weak_ordering_greater:
  fixes key :: "'e \<Rightarrow> 'k::linorder"
  shows "strict_weak_ordering (\<lambda>a b. key a > key b)"
  unfolding strict_weak_ordering_def by auto

lemma std_sort_mset:
  "std_sort_contract std_sort \<Longrightarrow> strict_weak_ordering cmp \<Longrightarrow> mset (std_sort cmp xs) = mset xs"
  by (simp add: std_sort_contract_def)

lemma std_sort_set:
  "std_sort_contract std_sort \<Longrightarrow> strict_weak_ordering cmp \<Longrightarrow> set (std_sort cmp xs) = set xs"
  using std_sort_mset [of std_sort cmp xs] by (metis set_mset_mset)

lemma std_sort_sorted:
  "std_sort_contract std_sort \<Longrightarrow> strict_weak_ordering cmp \<Longrightarrow>
   sorted_wrt (\<lambda>a b. \<not> cmp b a) (std_sort cmp xs)"
  by (simp add: std_sort_contract_def)

lemma mset_insert_sorted: "mset (insert_sorted cmp x xs) = add_mset x (mset xs)"
  by (induction xs) simp_all

lemma set_insert_sorted: "set (insert_sorted cmp x xs) = insert x (set xs)"
  by (induction xs) auto

lemma sorted_insert_sorted:
  assumes "strict_weak_ordering cmp" "sorted_wrt (\<lambda>a b. \<not> cmp b a) xs"
  shows "sorted_wrt (\<lambda>a b. \<not> cmp b a) (insert_sorted cmp x xs)"
  using assms(2)
proof (induction xs)
  case Nil
  then show ?case by simp
next
  case (Cons y ys)
  have irr: "\<not> cmp a a" and tr: "cmp a b \<Longrightarrow> cmp b c \<Longrightarrow> cmp a c" for a b c
    using assms(1) unfolding strict_weak_ordering_def by blast+
  show ?case
  proof (cases "cmp x y")
    case True
    have "\<not> cmp y x" using True irr tr by blast
    moreover have "\<not> cmp z x" if "z \<in> set ys" for z
      using that True tr Cons.prems by auto
    ultimately show ?thesis using True Cons.prems by auto
  next
    case False
    then show ?thesis using Cons by (auto simp add: set_insert_sorted)
  qed
qed

lemma insertion_sort_contract: "std_sort_contract insertion_sort"
  unfolding std_sort_contract_def
proof (intro allI impI conjI)
  fix cmp :: "'a \<Rightarrow> 'a \<Rightarrow> bool" and xs
  show "mset (insertion_sort cmp xs) = mset xs"
    by (induction xs) (simp_all add: mset_insert_sorted)
  assume "strict_weak_ordering cmp"
  then show "sorted_wrt (\<lambda>a b. \<not> cmp b a) (insertion_sort cmp xs)"
    by (induction xs) (simp_all add: sorted_insert_sorted)
qed

lemma index_GetTimestampsWithIndices_from:
  "map index (GetTimestampsWithIndices_from cnt ts) = [cnt ..< cnt + length ts]"
proof (induction ts arbitrary: cnt)
  case Nil
  then show ?case by simp
next
  case (Cons t ts)
  have "[cnt ..< cnt + Suc (length ts)] = cnt # [Suc cnt ..< cnt + Suc (length ts)]"
    by (rule upt_conv_Cons) simp
  then show ?case
    using Cons.IH [of "Suc cnt"] by simp
qed

lemma timestamp_GetTimestampsWithIndices_from:
  "e \<in> set (GetTimestampsWithIndices_from cnt ts) \<Longrightarrow>
   cnt \<le> index e \<and> index e < cnt + length ts \<and> timestamp e = ts ! (index e - cnt)"
proof (induction ts arbitrary: cnt)
  case Nil
  then show ?case by simp
next
  case (Cons t ts)
  show ?case
  proof (cases "e = \<lparr>timestamp = t, index = cnt\<rparr>")
    case True
    then show ?thesis by simp
  next
    case False
    then have "e \<in> set (GetTimestampsWithIndices_from (Suc cnt) ts)"
      using Cons.prems by simp
    from Cons.IH [OF this] show ?thesis
      by (auto simp add: Suc_diff_le)
  qed
qed

text \<open>An entry carries the timestamp found at its index in the input list.\<close>

lemma GetTimestampsWithIndices_entry:
  "e \<in> set (GetTimestampsWithIndices ts) \<Longrightarrow> index e < length ts \<and> timestamp e = ts ! index e"
  using timestamp_GetTimestampsWithIndices_from [of e 0 ts]
  by (simp add: GetTimestampsWithIndices_def)

lemma GetTimestampsWithIndices_index:
  "map index (GetTimestampsWithIndices ts) = [0 ..< length ts]"
  by (simp add: GetTimestampsWithIndices_def index_GetTimestampsWithIndices_from)

lemma GetTimestampsWithIndices_nth:
  "i < length ts \<Longrightarrow> \<lparr>timestamp = ts ! i, index = i\<rparr> \<in> set (GetTimestampsWithIndices ts)"
proof -
  assume i: "i < length ts"
  have len: "length (GetTimestampsWithIndices ts) = length ts"
    using GetTimestampsWithIndices_index [of ts] by (metis length_map length_upt minus_nat.diff_0)
  let ?e = "GetTimestampsWithIndices ts ! i"
  have mem: "?e \<in> set (GetTimestampsWithIndices ts)"
    using i len by simp
  have "index ?e = map index (GetTimestampsWithIndices ts) ! i"
    using i len by simp
  then have "index ?e = i"
    using i by (simp add: GetTimestampsWithIndices_index)
  moreover have "timestamp ?e = ts ! index ?e"
    using GetTimestampsWithIndices_entry [OF mem] by simp
  ultimately have "?e = \<lparr>timestamp = ts ! i, index = i\<rparr>"
    by simp
  with mem show ?thesis by simp
qed

lemma SortTimestampsWithIndices_mset:
  "std_sort_contract std_sort \<Longrightarrow> mset (SortTimestampsWithIndices std_sort params ts) = mset ts"
  unfolding SortTimestampsWithIndices_def
  by (cases "sorting params")
    (simp_all add: Let_def std_sort_mset strict_weak_ordering_less strict_weak_ordering_greater)

lemma SortTimestampsWithIndices_ordered:
  assumes "std_sort_contract std_sort"
  shows "policy_ordered params (map timestamp (SortTimestampsWithIndices std_sort params ts))"
proof (cases "sorting params")
  case ASC
  have "sorted_wrt (\<lambda>a b. \<not> timestamp b < timestamp a)
          (std_sort (\<lambda>a b. timestamp a < timestamp b) ts)"
    by (rule std_sort_sorted [OF assms strict_weak_ordering_less])
  then show ?thesis
    using ASC by (simp add: policy_ordered_def SortTimestampsWithIndices_def sorted_wrt_map not_less)
next
  case DES
  have "sorted_wrt (\<lambda>a b. \<not> timestamp b > timestamp a)
          (std_sort (\<lambda>a b. timestamp a > timestamp b) ts)"
    by (rule std_sort_sorted [OF assms strict_weak_ordering_greater])
  then show ?thesis
    using DES by (simp add: policy_ordered_def SortTimestampsWithIndices_def sorted_wrt_map not_less)
next
  case ABS
  let ?r = "sorting_abs_reftimestamp params"
  have "sorted_wrt (\<lambda>a b. \<not> \<bar>timestamp b - ?r\<bar> < \<bar>timestamp a - ?r\<bar>)
          (std_sort (\<lambda>a b. \<bar>timestamp a - ?r\<bar> < \<bar>timestamp b - ?r\<bar>) ts)"
    by (rule std_sort_sorted [OF assms strict_weak_ordering_less])
  then show ?thesis
    using ABS
    by (simp add: policy_ordered_def SortTimestampsWithIndices_def Let_def sorted_wrt_map not_less)
qed

lemma set_pairs_loop:
  assumes "std_sort_contract std_sort"
  shows "set (pairs_loop std_sort g opts sar acc)
         = set acc \<union> {(index s, index p) | s p.
               p \<in> set opts \<and> s \<in> set sar \<and> \<bar>timestamp s - timestamp p\<bar> \<le> g}"
proof (induction opts arbitrary: sar acc)
  case Nil
  then show ?case by simp
next
  case (Cons p opts)
  let ?sar = "std_sort (\<lambda>i j. \<bar>timestamp i - timestamp p\<bar> < \<bar>timestamp j - timestamp p\<bar>) sar"
  have same: "set ?sar = set sar"
    by (rule std_sort_set [OF assms strict_weak_ordering_less])
  have "set (pairs_loop std_sort g (p # opts) sar acc)
        = set acc \<union> {(index s, index p) | s. s \<in> set sar \<and> \<bar>timestamp s - timestamp p\<bar> \<le> g}
          \<union> {(index s, index q) | s q.
               q \<in> set opts \<and> s \<in> set sar \<and> \<bar>timestamp s - timestamp q\<bar> \<le> g}"
    by (simp add: Let_def Cons.IH same image_Collect) 
  also have "\<dots> = set acc \<union> {(index s, index q) | s q.
               q \<in> set (p # opts) \<and> s \<in> set sar \<and> \<bar>timestamp s - timestamp q\<bar> \<le> g}"
    by auto
  finally show ?case .
qed

lemma pairs_of_groups_Cons:
  "pairs_of_groups ((optIdx, sarIdxs) # groups)
   = map (\<lambda>sarIdx. (sarIdx, optIdx)) sarIdxs @ pairs_of_groups groups"
  by (simp add: pairs_of_groups_def)

lemma pairs_loop_groups:
  assumes "std_sort_contract std_sort"
    and "\<forall>s\<in>set sar. index s < length sarTs \<and> timestamp s = sarTs ! index s"
  shows "\<exists>gs. length gs = length opts
           \<and> pairs_loop std_sort g opts sar acc = acc @ pairs_of_groups (zip (map index opts) gs)
           \<and> (\<forall>k<length opts. (\<forall>r\<in>set (gs ! k). r < length sarTs)
                 \<and> nearest_first (timestamp (opts ! k)) (map (\<lambda>r. sarTs ! r) (gs ! k)))"
  using assms(2)
proof (induction opts arbitrary: sar acc)
  case Nil
  then show ?case by (simp add: pairs_of_groups_def)
next
  case (Cons p opts)
  let ?cmp = "\<lambda>i j. \<bar>timestamp i - timestamp p\<bar> < \<bar>timestamp j - timestamp p\<bar>"
  define sarSorted where "sarSorted = std_sort ?cmp sar"
  define picked where "picked = filter (\<lambda>s. \<bar>timestamp s - timestamp p\<bar> \<le> g) sarSorted"
  define acc' where "acc' = acc @ map (\<lambda>s. (index s, index p)) picked"
  define g0 where "g0 = map index picked"
  have same: "set sarSorted = set sar"
    unfolding sarSorted_def by (rule std_sort_set [OF assms(1) strict_weak_ordering_less])
  have entries: "\<forall>s\<in>set sarSorted. index s < length sarTs \<and> timestamp s = sarTs ! index s"
    unfolding same by (rule Cons.prems)
  have picked_entry: "index s < length sarTs \<and> sarTs ! index s = timestamp s"
    if "s \<in> set picked" for s
  proof -
    from that have "s \<in> set sarSorted" by (simp add: picked_def)
    with entries show ?thesis by fastforce
  qed
  from Cons.IH [OF entries, of acc'] obtain gs where
    gs: "length gs = length opts"
      "pairs_loop std_sort g opts sarSorted acc' = acc' @ pairs_of_groups (zip (map index opts) gs)"
      "\<forall>k<length opts. (\<forall>r\<in>set (gs ! k). r < length sarTs)
           \<and> nearest_first (timestamp (opts ! k)) (map (\<lambda>r. sarTs ! r) (gs ! k))"
    by blast
  have rng0: "\<forall>r\<in>set g0. r < length sarTs"
    using picked_entry by (auto simp add: g0_def)
  have "sorted_wrt (\<lambda>a b. \<not> ?cmp b a) sarSorted"
    unfolding sarSorted_def by (rule std_sort_sorted [OF assms(1) strict_weak_ordering_less])
  then have "sorted_wrt (\<lambda>a b. \<not> ?cmp b a) picked"
    unfolding picked_def by (rule sorted_wrt_filter)
  then have "sorted_wrt (\<lambda>a b. \<bar>timestamp a - timestamp p\<bar> \<le> \<bar>timestamp b - timestamp p\<bar>) picked"
    by (simp add: not_less)
  moreover have "map (\<lambda>r. sarTs ! r) g0 = map timestamp picked"
    using picked_entry by (simp add: g0_def)
  ultimately have near0: "nearest_first (timestamp p) (map (\<lambda>r. sarTs ! r) g0)"
    by (simp add: nearest_first_def sorted_wrt_map)
  have "pairs_loop std_sort g (p # opts) sar acc = pairs_loop std_sort g opts sarSorted acc'"
    by (simp add: Let_def sarSorted_def picked_def acc'_def)
  also have "\<dots> = acc @ pairs_of_groups (zip (map index (p # opts)) (g0 # gs))"
    unfolding gs(2) by (simp add: pairs_of_groups_Cons acc'_def g0_def)
  finally have loop: "pairs_loop std_sort g (p # opts) sar acc
              = acc @ pairs_of_groups (zip (map index (p # opts)) (g0 # gs))" .
  have props: "\<forall>k<length (p # opts). (\<forall>r\<in>set ((g0 # gs) ! k). r < length sarTs)
           \<and> nearest_first (timestamp ((p # opts) ! k)) (map (\<lambda>r. sarTs ! r) ((g0 # gs) ! k))"
  proof (intro allI impI)
    fix k assume "k < length (p # opts)"
    then show "(\<forall>r\<in>set ((g0 # gs) ! k). r < length sarTs)
           \<and> nearest_first (timestamp ((p # opts) ! k)) (map (\<lambda>r. sarTs ! r) ((g0 # gs) ! k))"
      using rng0 near0 gs(3) by (cases k) simp_all
  qed
  have len: "length (g0 # gs) = length (p # opts)"
    using gs(1) by simp
  from len loop props show ?case
    by blast
qed

lemma set_candidates:
  assumes "std_sort_contract std_sort"
  shows "set (pairs_loop std_sort g
                (SortTimestampsWithIndices std_sort params (GetTimestampsWithIndices optTs))
                (GetTimestampsWithIndices sarTs) [])
         = {(i, j). i < length sarTs \<and> j < length optTs \<and> \<bar>sarTs ! i - optTs ! j\<bar> \<le> g}"
    (is "set ?ps = ?R")
proof -
  let ?sar = "GetTimestampsWithIndices sarTs" and ?opt = "GetTimestampsWithIndices optTs"
  have "set (SortTimestampsWithIndices std_sort params ?opt) = set ?opt"
    using SortTimestampsWithIndices_mset [OF assms, of params ?opt] by (metis set_mset_mset)
  then have ps: "set ?ps = {(index s, index p) | s p.
      p \<in> set ?opt \<and> s \<in> set ?sar \<and> \<bar>timestamp s - timestamp p\<bar> \<le> g}"
    by (simp add: set_pairs_loop [OF assms])
  show ?thesis
  proof (intro set_eqI iffI)
    fix x assume "x \<in> set ?ps"
    then obtain s p where x: "x = (index s, index p)" "p \<in> set ?opt" "s \<in> set ?sar"
      "\<bar>timestamp s - timestamp p\<bar> \<le> g"
      unfolding ps by blast
    then show "x \<in> ?R"
      using GetTimestampsWithIndices_entry [OF x(2)] GetTimestampsWithIndices_entry [OF x(3)]
      by simp
  next
    fix x assume "x \<in> ?R"
    then obtain i j where x: "x = (i, j)" "i < length sarTs" "j < length optTs"
      "\<bar>sarTs ! i - optTs ! j\<bar> \<le> g"
      by blast
    let ?s = "\<lparr>timestamp = sarTs ! i, index = i\<rparr>" and ?p = "\<lparr>timestamp = optTs ! j, index = j\<rparr>"
    have "?s \<in> set ?sar" "?p \<in> set ?opt"
      using x(2,3) by (simp_all add: GetTimestampsWithIndices_nth)
    moreover have "x = (index ?s, index ?p)" "\<bar>timestamp ?s - timestamp ?p\<bar> \<le> g"
      using x(1,4) by simp_all
    ultimately show "x \<in> set ?ps"
      unfolding ps by blast
  qed
qed

lemma GetCandidatesPairs_Inr:
  "GetCandidatesPairs std_sort params sarTs optTs = Inr pairs \<Longrightarrow>
   pairs = pairs_loop std_sort (maxgap params)
             (SortTimestampsWithIndices std_sort params (GetTimestampsWithIndices optTs))
             (GetTimestampsWithIndices sarTs) []
   \<and> pairs \<noteq> []"
  by (auto simp add: GetCandidatesPairs_def Let_def split: if_splits)

text \<open>
  C3. Every pair \<open>(sarIdx, optIdx)\<close> that the pair matcher returns refers to a SAR and an
  optical timestamp of the input whose distance is at most \<open>maxgap\<close>, the bound included.
\<close>

theorem C3_gap_bound:
  assumes "std_sort_contract std_sort"
    and "GetCandidatesPairs std_sort params timestampssar timestampsopt = Inr indicesPairs"
  shows "\<forall>pair\<in>set indicesPairs.
           fst pair < length timestampssar \<and> snd pair < length timestampsopt
           \<and> \<bar>timestampssar ! fst pair - timestampsopt ! snd pair\<bar> \<le> maxgap params"
proof
  fix pair assume "pair \<in> set indicesPairs"
  then have "pair \<in> {(i, j). i < length timestampssar \<and> j < length timestampsopt
                \<and> \<bar>timestampssar ! i - timestampsopt ! j\<bar> \<le> maxgap params}"
    using GetCandidatesPairs_Inr [OF assms(2)] set_candidates [OF assms(1)] by simp
  then show "fst pair < length timestampssar \<and> snd pair < length timestampsopt
           \<and> \<bar>timestampssar ! fst pair - timestampsopt ! snd pair\<bar> \<le> maxgap params"
    by (simp add: case_prod_beta)
qed

theorem C3_witness:
  "std_sort_contract (insertion_sort ::
      (int TimestampWithIndex \<Rightarrow> int TimestampWithIndex \<Rightarrow> bool)
        \<Rightarrow> int TimestampWithIndex list \<Rightarrow> int TimestampWithIndex list)
   \<and> GetCandidatesPairs insertion_sort
          \<lparr>sorting = DES, sorting_abs_reftimestamp = 0, maxgap = 3\<rparr> [10, 1, 5, 7 :: int] [6, 2, 9]
        = Inr [(0, 2), (3, 2), (2, 0), (3, 0), (1, 1), (2, 1)]
   \<and> list_all (\<lambda>pair. fst pair < length [10, 1, 5, 7 :: int] \<and> snd pair < length [6, 2, 9 :: int]
          \<and> \<bar>[10, 1, 5, 7 :: int] ! fst pair - [6, 2, 9] ! snd pair\<bar>
              \<le> maxgap \<lparr>sorting = DES, sorting_abs_reftimestamp = 0, maxgap = 3\<rparr>)
        [(0, 2), (3, 2), (2, 0), (3, 0), (1, 1), (2, 1)]"
proof -
  have run: "GetCandidatesPairs insertion_sort
          \<lparr>sorting = DES, sorting_abs_reftimestamp = 0, maxgap = 3\<rparr> [10, 1, 5, 7 :: int] [6, 2, 9]
        = Inr [(0, 2), (3, 2), (2, 0), (3, 0), (1, 1), (2, 1)]"
    by (simp add: GetCandidatesPairs_def GetTimestampsWithIndices_def SortTimestampsWithIndices_def
        Let_def)
  from C3_gap_bound [OF insertion_sort_contract run] insertion_sort_contract run
  show ?thesis
    by (simp only: list_all_iff)
qed

text \<open>
  C4. The pair list that the pair matcher returns is a sequence of groups, one for each
  optical entry. The optical timestamps of the successive groups follow the sort mode: they
  never decrease under \<open>ASC\<close>, never increase under \<open>DES\<close>, and their distance to the
  reference timestamp never decreases under \<open>ABS\<close>. Inside a group the SAR entries are in
  ascending distance to the optical timestamp of the group. The order of ties is whatever
  \<open>std::sort\<close> makes it.
\<close>

theorem C4_candidate_order:
  assumes "std_sort_contract std_sort"
    and "GetCandidatesPairs std_sort params timestampssar timestampsopt = Inr indicesPairs"
  shows "\<exists>groups.
           indicesPairs = pairs_of_groups groups
         \<and> mset (map fst groups) = mset [0 ..< length timestampsopt]
         \<and> policy_ordered params (map (\<lambda>grp. timestampsopt ! fst grp) groups)
         \<and> (\<forall>grp\<in>set groups.
               (\<forall>r\<in>set (snd grp). r < length timestampssar)
             \<and> nearest_first (timestampsopt ! fst grp) (map (\<lambda>r. timestampssar ! r) (snd grp)))"
proof -
  define optSorted where
    "optSorted = SortTimestampsWithIndices std_sort params (GetTimestampsWithIndices timestampsopt)"
  have pairs: "indicesPairs = pairs_loop std_sort (maxgap params) optSorted
                 (GetTimestampsWithIndices timestampssar) []"
    using GetCandidatesPairs_Inr [OF assms(2)] by (simp add: optSorted_def)
  have sar_entries: "\<forall>s\<in>set (GetTimestampsWithIndices timestampssar).
      index s < length timestampssar \<and> timestamp s = timestampssar ! index s"
    using GetTimestampsWithIndices_entry by blast
  have opt_mset: "mset optSorted = mset (GetTimestampsWithIndices timestampsopt)"
    unfolding optSorted_def by (rule SortTimestampsWithIndices_mset [OF assms(1)])
  then have "set optSorted = set (GetTimestampsWithIndices timestampsopt)"
    by (metis set_mset_mset)
  then have opt_entry: "timestampsopt ! index p = timestamp p" if "p \<in> set optSorted" for p
    using that GetTimestampsWithIndices_entry [of p timestampsopt] by simp
  from pairs_loop_groups [OF assms(1) sar_entries, of optSorted "maxgap params" "[]"]
  obtain gs where
    gs: "length gs = length optSorted"
      "indicesPairs = pairs_of_groups (zip (map index optSorted) gs)"
      "\<forall>k<length optSorted. (\<forall>r\<in>set (gs ! k). r < length timestampssar)
           \<and> nearest_first (timestamp (optSorted ! k)) (map (\<lambda>r. timestampssar ! r) (gs ! k))"
    unfolding pairs by auto
  define groups where "groups = zip (map index optSorted) gs"
  have fsts: "map fst groups = map index optSorted"
    unfolding groups_def using gs(1) by simp
  have "mset (map index optSorted) = mset (map index (GetTimestampsWithIndices timestampsopt))"
    using opt_mset by (metis mset_map)
  then have c2: "mset (map fst groups) = mset [0 ..< length timestampsopt]"
    by (simp add: fsts GetTimestampsWithIndices_index)
  have "map (\<lambda>grp. timestampsopt ! fst grp) groups = map (\<lambda>p. timestampsopt ! index p) optSorted"
    using arg_cong [OF fsts, of "map (\<lambda>i. timestampsopt ! i)"] by (simp add: o_def)
  also have "\<dots> = map timestamp optSorted"
    using opt_entry by simp
  finally have c3: "policy_ordered params (map (\<lambda>grp. timestampsopt ! fst grp) groups)"
    using SortTimestampsWithIndices_ordered [OF assms(1), of params "GetTimestampsWithIndices timestampsopt"]
    by (simp add: optSorted_def)
  have c4: "\<forall>grp\<in>set groups.
               (\<forall>r\<in>set (snd grp). r < length timestampssar)
             \<and> nearest_first (timestampsopt ! fst grp) (map (\<lambda>r. timestampssar ! r) (snd grp))"
  proof
    fix grp assume "grp \<in> set groups"
    then obtain k where k: "k < length optSorted" "grp = (index (optSorted ! k), gs ! k)"
      unfolding groups_def using gs(1) by (auto simp add: set_zip)
    have "timestampsopt ! fst grp = timestamp (optSorted ! k)"
      using k opt_entry [of "optSorted ! k"] by simp
    then show "(\<forall>r\<in>set (snd grp). r < length timestampssar)
             \<and> nearest_first (timestampsopt ! fst grp) (map (\<lambda>r. timestampssar ! r) (snd grp))"
      using gs(3) k by simp
  qed
  have c1: "indicesPairs = pairs_of_groups groups"
    using gs(2) by (simp add: groups_def)
  from c1 c2 c3 c4 show ?thesis
    by blast
qed

theorem C4_witness:
  "std_sort_contract (insertion_sort ::
      (int TimestampWithIndex \<Rightarrow> int TimestampWithIndex \<Rightarrow> bool)
        \<Rightarrow> int TimestampWithIndex list \<Rightarrow> int TimestampWithIndex list)
   \<and> GetCandidatesPairs insertion_sort
          \<lparr>sorting = ABS, sorting_abs_reftimestamp = 5, maxgap = 3\<rparr> [10, 1, 5, 7 :: int] [6, 2, 9]
        = Inr [(3, 0), (2, 0), (1, 1), (2, 1), (0, 2), (3, 2)]
   \<and> (\<exists>groups.
         [(3, 0), (2, 0), (1, 1), (2, 1), (0, 2), (3, 2)] = pairs_of_groups groups
       \<and> mset (map fst groups) = mset [0 ..< length [6, 2, 9 :: int]]
       \<and> policy_ordered \<lparr>sorting = ABS, sorting_abs_reftimestamp = 5 :: int, maxgap = 3\<rparr>
            (map (\<lambda>grp. [6, 2, 9] ! fst grp) groups)
       \<and> (\<forall>grp\<in>set groups.
             (\<forall>r\<in>set (snd grp). r < length [10, 1, 5, 7 :: int])
           \<and> nearest_first ([6, 2, 9] ! fst grp) (map (\<lambda>r. [10, 1, 5, 7 :: int] ! r) (snd grp))))"
proof -
  have run: "GetCandidatesPairs insertion_sort
          \<lparr>sorting = ABS, sorting_abs_reftimestamp = 5, maxgap = 3\<rparr> [10, 1, 5, 7 :: int] [6, 2, 9]
        = Inr [(3, 0), (2, 0), (1, 1), (2, 1), (0, 2), (3, 2)]"
    by (simp add: GetCandidatesPairs_def GetTimestampsWithIndices_def SortTimestampsWithIndices_def
        Let_def)
  from C4_candidate_order [OF insertion_sort_contract run] insertion_sort_contract run
  show ?thesis
    by (intro conjI)
qed

text \<open>
  C6. When no SAR timestamp is within \<open>maxgap\<close> of an optical timestamp, the pair matcher
  fails with \<open>FatalError\<close>; when some SAR timestamp is, it returns a list that is not empty.
  It never returns the empty list.
\<close>

theorem C6_fatal_iff_no_pair:
  assumes "std_sort_contract std_sort"
  shows "((\<forall>s\<in>set timestampssar. \<forall>t\<in>set timestampsopt. \<not> \<bar>s - t\<bar> \<le> maxgap params)
            \<longrightarrow> GetCandidatesPairs std_sort params timestampssar timestampsopt = Inl FatalError)
         \<and> ((\<exists>s\<in>set timestampssar. \<exists>t\<in>set timestampsopt. \<bar>s - t\<bar> \<le> maxgap params)
            \<longrightarrow> (\<exists>indicesPairs.
                   GetCandidatesPairs std_sort params timestampssar timestampsopt = Inr indicesPairs
                   \<and> indicesPairs \<noteq> []))
         \<and> GetCandidatesPairs std_sort params timestampssar timestampsopt \<noteq> Inr []"
proof -
  let ?ps = "pairs_loop std_sort (maxgap params)
               (SortTimestampsWithIndices std_sort params (GetTimestampsWithIndices timestampsopt))
               (GetTimestampsWithIndices timestampssar) []"
  have res: "GetCandidatesPairs std_sort params timestampssar timestampsopt
             = (if ?ps = [] then Inl FatalError else Inr ?ps)"
    by (simp add: GetCandidatesPairs_def Let_def)
  have set_ps: "set ?ps = {(i, j). i < length timestampssar \<and> j < length timestampsopt
                  \<and> \<bar>timestampssar ! i - timestampsopt ! j\<bar> \<le> maxgap params}"
    by (rule set_candidates [OF assms])
  have none: "?ps = []"
    if "\<forall>s\<in>set timestampssar. \<forall>t\<in>set timestampsopt. \<not> \<bar>s - t\<bar> \<le> maxgap params"
  proof -
    have "set ?ps = {}"
      unfolding set_ps using that nth_mem [of _ timestampssar] nth_mem [of _ timestampsopt]
      by blast
    then show ?thesis by simp
  qed
  have some: "?ps \<noteq> []"
    if "\<exists>s\<in>set timestampssar. \<exists>t\<in>set timestampsopt. \<bar>s - t\<bar> \<le> maxgap params"
  proof -
    from that obtain i j where "i < length timestampssar" "j < length timestampsopt"
      "\<bar>timestampssar ! i - timestampsopt ! j\<bar> \<le> maxgap params"
      by (auto simp add: in_set_conv_nth)
    then have "(i, j) \<in> set ?ps"
      unfolding set_ps by simp
    then show ?thesis by auto
  qed
  show ?thesis
    unfolding res using none some by simp
qed

theorem C6_witness:
  "std_sort_contract (insertion_sort ::
      (int TimestampWithIndex \<Rightarrow> int TimestampWithIndex \<Rightarrow> bool)
        \<Rightarrow> int TimestampWithIndex list \<Rightarrow> int TimestampWithIndex list)
   \<and> GetCandidatesPairs insertion_sort
          \<lparr>sorting = ASC, sorting_abs_reftimestamp = 0, maxgap = 3\<rparr> [10, 1, 5, 7 :: int] [60, 20, 90]
        = Inl FatalError
   \<and> (\<exists>indicesPairs.
         GetCandidatesPairs insertion_sort
           \<lparr>sorting = ASC, sorting_abs_reftimestamp = 0, maxgap = 3\<rparr> [10, 1, 5, 7 :: int] [6, 2, 9]
         = Inr indicesPairs \<and> indicesPairs \<noteq> [])"
proof -
  let ?p = "\<lparr>sorting = ASC, sorting_abs_reftimestamp = 0 :: int, maxgap = 3\<rparr>"
  have none: "\<forall>s\<in>set [10, 1, 5, 7 :: int]. \<forall>t\<in>set [60, 20, 90]. \<not> \<bar>s - t\<bar> \<le> maxgap ?p"
    by simp
  have some: "\<exists>s\<in>set [10, 1, 5, 7 :: int]. \<exists>t\<in>set [6, 2, 9]. \<bar>s - t\<bar> \<le> maxgap ?p"
    by simp
  have fatal: "GetCandidatesPairs insertion_sort ?p [10, 1, 5, 7] [60, 20, 90] = Inl FatalError"
    using C6_fatal_iff_no_pair [OF insertion_sort_contract, of "[10, 1, 5, 7]" "[60, 20, 90]" ?p] none
    by blast
  have pairs: "\<exists>indicesPairs. GetCandidatesPairs insertion_sort ?p [10, 1, 5, 7] [6, 2, 9] = Inr indicesPairs
                 \<and> indicesPairs \<noteq> []"
    using C6_fatal_iff_no_pair [OF insertion_sort_contract, of "[10, 1, 5, 7]" "[6, 2, 9]" ?p] some
    by blast
  from insertion_sort_contract fatal pairs show ?thesis
    by (intro conjI)
qed

subsection \<open>Compaction of the image lists\<close>

lemma set_first_seen: "set (first_seen xs) = set xs"
  by (induction xs) auto

lemma distinct_first_seen: "distinct (first_seen xs)"
  by (induction xs) (auto simp add: distinct_removeAll)

lemma first_seen_snoc:
  "first_seen (xs @ [x]) = (if x \<in> set xs then first_seen xs else first_seen xs @ [x])"
  by (induction xs) (auto simp add: set_first_seen)

lemma std_find_absent: "(std_find xs v = length xs) = (v \<notin> set xs)"
proof (induction xs)
  case Nil
  then show ?case by simp
next
  case (Cons x xs)
  have "std_find xs v \<le> length xs" for xs
    by (induction xs) auto
  then show ?case using Cons by auto
qed

lemma std_find_append: "v \<in> set xs \<Longrightarrow> std_find (xs @ ys) v = std_find xs v"
  by (induction xs) auto

lemma std_find_snoc: "v \<notin> set xs \<Longrightarrow> std_find (xs @ [v]) v = length xs"
  by (induction xs) auto

lemma std_find_nth: "v \<in> set xs \<Longrightarrow> std_find xs v < length xs \<and> xs ! std_find xs v = v"
  by (induction xs) auto

lemma std_find_distinct: "distinct xs \<Longrightarrow> i < length xs \<Longrightarrow> std_find xs (xs ! i) = i"
proof (induction xs arbitrary: i)
  case Nil
  then show ?case by simp
next
  case (Cons x xs)
  then show ?case by (cases i) auto
qed

lemma std_find_image: "distinct xs \<Longrightarrow> std_find xs ` set xs = {0 ..< length xs}"
proof
  assume d: "distinct xs"
  show "std_find xs ` set xs \<subseteq> {0 ..< length xs}"
    using std_find_nth by fastforce
  show "{0 ..< length xs} \<subseteq> std_find xs ` set xs"
  proof
    fix i assume "i \<in> {0 ..< length xs}"
    then have "i < length xs" by simp
    then have "std_find xs (xs ! i) = i" "xs ! i \<in> set xs"
      using d std_find_distinct by simp_all
    then show "i \<in> std_find xs ` set xs" by force
  qed
qed

lemma use_image_step:
  assumes "x < length inList"
  shows "use_image inList x (used_after inList xs)
         = Inr (used_after inList (xs @ [x]), std_find (first_seen (xs @ [x])) x)"
proof (cases "x \<in> set xs")
  case True
  then have "std_find (first_seen xs) x \<noteq> length (first_seen xs)"
    by (simp add: std_find_absent set_first_seen)
  then show ?thesis
    using True by (simp add: use_image_def used_after_def first_seen_snoc Let_def)
next
  case False
  then have "std_find (first_seen xs) x = length (first_seen xs)"
    by (simp add: std_find_absent set_first_seen)
  then show ?thesis
    using False assms
    by (simp add: use_image_def used_after_def first_seen_snoc Let_def GetNthElement_def
        std_find_snoc set_first_seen)
qed

lemma std_find_first_seen_snoc:
  "v \<in> set xs \<Longrightarrow> std_find (first_seen (xs @ [x])) v = std_find (first_seen xs) v"
  by (simp add: first_seen_snoc std_find_append set_first_seen)

lemma compact_pair_snoc:
  "q \<in> set pre \<Longrightarrow> compact_pair (pre @ [pair]) q = compact_pair pre q"
  by (simp add: compact_pair_def std_find_first_seen_snoc)

lemma InstantiateSources_loop_eq:
  assumes "\<forall>pair\<in>set rest. fst pair < length inSARList \<and> snd pair < length inOptList"
  shows "InstantiateSources_loop inSARList inOptList rest
           (used_after inSARList (map fst pre)) (used_after inOptList (map snd pre))
           (map (compact_pair pre) pre)
         = Inr (map (compact_pair (pre @ rest)) (pre @ rest),
                map (\<lambda>i. inSARList ! i) (first_seen (map fst (pre @ rest))),
                map (\<lambda>i. inOptList ! i) (first_seen (map snd (pre @ rest))))"
  using assms
proof (induction rest arbitrary: pre)
  case Nil
  then show ?case by (simp add: used_after_def)
next
  case (Cons pair rest)
  have rng: "fst pair < length inSARList" "snd pair < length inOptList"
    "\<forall>pair\<in>set rest. fst pair < length inSARList \<and> snd pair < length inOptList"
    using Cons.prems by simp_all
  have out: "map (compact_pair pre) pre
               @ [(std_find (first_seen (map fst pre @ [fst pair])) (fst pair),
                   std_find (first_seen (map snd pre @ [snd pair])) (snd pair))]
             = map (compact_pair (pre @ [pair])) (pre @ [pair])"
    by (simp add: compact_pair_snoc) (simp add: compact_pair_def)
  have "InstantiateSources_loop inSARList inOptList (pair # rest)
           (used_after inSARList (map fst pre)) (used_after inOptList (map snd pre))
           (map (compact_pair pre) pre)
        = InstantiateSources_loop inSARList inOptList rest
           (used_after inSARList (map fst pre @ [fst pair])) (used_after inOptList (map snd pre @ [snd pair]))
           (map (compact_pair pre) pre
               @ [(std_find (first_seen (map fst pre @ [fst pair])) (fst pair),
                   std_find (first_seen (map snd pre @ [snd pair])) (snd pair))])"
    using use_image_step [OF rng(1), of "map fst pre"] use_image_step [OF rng(2), of "map snd pre"]
    by simp
  also have "\<dots> = InstantiateSources_loop inSARList inOptList rest
           (used_after inSARList (map fst (pre @ [pair]))) (used_after inOptList (map snd (pre @ [pair])))
           (map (compact_pair (pre @ [pair])) (pre @ [pair]))"
    unfolding out by simp
  also have "\<dots> = Inr (map (compact_pair ((pre @ [pair]) @ rest)) ((pre @ [pair]) @ rest),
                map (\<lambda>i. inSARList ! i) (first_seen (map fst ((pre @ [pair]) @ rest))),
                map (\<lambda>i. inOptList ! i) (first_seen (map snd ((pre @ [pair]) @ rest))))"
    by (rule Cons.IH [OF rng(3)])
  finally show ?case by simp
qed

lemma InstantiateSources_eq:
  assumes "\<forall>pair\<in>set inIndicesPairs. fst pair < length inSARList \<and> snd pair < length inOptList"
  shows "InstantiateSources inIndicesPairs inSARList inOptList
         = Inr (map (compact_pair inIndicesPairs) inIndicesPairs,
                map (\<lambda>i. inSARList ! i) (first_seen (map fst inIndicesPairs)),
                map (\<lambda>i. inOptList ! i) (first_seen (map snd inIndicesPairs)))"
  using InstantiateSources_loop_eq [OF assms, of "[]"]
  by (simp add: InstantiateSources_def used_after_def)

lemma new_indices_fst:
  "fst ` set (map (compact_pair ps) ps) = {0 ..< card (fst ` set ps)}"
proof -
  let ?olds = "first_seen (map fst ps)"
  have "fst ` set (map (compact_pair ps) ps) = std_find ?olds ` set ?olds"
    by (force simp add: compact_pair_def set_first_seen image_iff)
  also have "\<dots> = {0 ..< length ?olds}"
    by (rule std_find_image [OF distinct_first_seen])
  also have "length ?olds = card (fst ` set ps)"
    using distinct_card [OF distinct_first_seen, of "map fst ps"] by (simp add: set_first_seen)
  finally show ?thesis .
qed

lemma new_indices_snd:
  "snd ` set (map (compact_pair ps) ps) = {0 ..< card (snd ` set ps)}"
proof -
  let ?olds = "first_seen (map snd ps)"
  have "snd ` set (map (compact_pair ps) ps) = std_find ?olds ` set ?olds"
    by (force simp add: compact_pair_def set_first_seen image_iff)
  also have "\<dots> = {0 ..< length ?olds}"
    by (rule std_find_image [OF distinct_first_seen])
  also have "length ?olds = card (snd ` set ps)"
    using distinct_card [OF distinct_first_seen, of "map snd ps"] by (simp add: set_first_seen)
  finally show ?thesis .
qed

text \<open>
  C5. When every candidate index is an index of its image list, \<open>InstantiateSources\<close> returns
  a pair list of the same length whose \<open>i\<close>-th pair is the \<open>i\<close>-th candidate pair with both
  indices translated: the new index of an original index is its position among the distinct
  original indices in the order of their first occurrence, and the image at the new index is
  the image the original index referred to. On each side the new indices are exactly
  \<open>0, \<dots>, k - 1\<close> for \<open>k\<close> distinct original indices.
\<close>

theorem C5_compaction:
  assumes "\<forall>pair\<in>set inIndicesPairs. fst pair < length inSARList \<and> snd pair < length inOptList"
  shows "\<exists>outIndicesPairs sarList optList.
           InstantiateSources inIndicesPairs inSARList inOptList
             = Inr (outIndicesPairs, sarList, optList)
         \<and> length outIndicesPairs = length inIndicesPairs
         \<and> (\<forall>i<length inIndicesPairs.
               outIndicesPairs ! i = compact_pair inIndicesPairs (inIndicesPairs ! i)
             \<and> sarList ! fst (outIndicesPairs ! i) = inSARList ! fst (inIndicesPairs ! i)
             \<and> optList ! snd (outIndicesPairs ! i) = inOptList ! snd (inIndicesPairs ! i))
         \<and> fst ` set outIndicesPairs = {0 ..< card (fst ` set inIndicesPairs)}
         \<and> snd ` set outIndicesPairs = {0 ..< card (snd ` set inIndicesPairs)}
         \<and> sarList = map (\<lambda>i. inSARList ! i) (first_seen (map fst inIndicesPairs))
         \<and> optList = map (\<lambda>i. inOptList ! i) (first_seen (map snd inIndicesPairs))"
proof -
  let ?out = "map (compact_pair inIndicesPairs) inIndicesPairs"
  let ?so = "first_seen (map fst inIndicesPairs)" and ?oo = "first_seen (map snd inIndicesPairs)"
  have img: "map (\<lambda>i. inSARList ! i) ?so ! fst (?out ! i) = inSARList ! fst (inIndicesPairs ! i)
             \<and> map (\<lambda>i. inOptList ! i) ?oo ! snd (?out ! i) = inOptList ! snd (inIndicesPairs ! i)"
    if "i < length inIndicesPairs" for i
  proof -
    have "fst (inIndicesPairs ! i) \<in> set ?so" "snd (inIndicesPairs ! i) \<in> set ?oo"
      using that by (simp_all add: set_first_seen)
    then show ?thesis
      using that std_find_nth [of "fst (inIndicesPairs ! i)" ?so]
        std_find_nth [of "snd (inIndicesPairs ! i)" ?oo]
      by (simp add: compact_pair_def)
  qed
  show ?thesis
    unfolding InstantiateSources_eq [OF assms]
    using img new_indices_fst [of inIndicesPairs] new_indices_snd [of inIndicesPairs]
    by simp
qed

theorem C5_witness:
  "fst (5::nat, 2::nat) < length [10, 11, 12, 13, 14, 15 :: nat] \<and> snd (5::nat, 2::nat) < length [20, 21, 22 :: nat]
   \<and> InstantiateSources [(5, 2), (3, 2), (5, 1), (4, 1)] [10, 11, 12, 13, 14, 15 :: nat] [20, 21, 22 :: nat]
       = Inr ([(0, 0), (1, 0), (0, 1), (2, 1)], [15, 13, 14], [22, 21])
   \<and> first_seen (map fst [(5, 2), (3, 2), (5, 1), (4, 1)]) = [5, 3, 4]"
proof -
  let ?ps = "[(5, 2), (3, 2), (5, 1), (4, 1)] :: (nat \<times> nat) list"
  let ?sar = "[10, 11, 12, 13, 14, 15] :: nat list" and ?opt = "[20, 21, 22] :: nat list"
  have h: "\<forall>pair\<in>set ?ps. fst pair < length ?sar \<and> snd pair < length ?opt"
    by simp
  have fs: "first_seen (map fst ?ps) = [5, 3, 4]" "first_seen (map snd ?ps) = [2, 1]"
    by simp_all
  from C5_compaction [OF h] obtain out sarList optList where
    r: "InstantiateSources ?ps ?sar ?opt = Inr (out, sarList, optList)"
      "length out = length ?ps"
      "\<forall>i<length ?ps. out ! i = compact_pair ?ps (?ps ! i)"
      "sarList = map (\<lambda>i. ?sar ! i) (first_seen (map fst ?ps))"
      "optList = map (\<lambda>i. ?opt ! i) (first_seen (map snd ?ps))"
    by blast
  have "out = map (compact_pair ?ps) ?ps"
  proof (rule nth_equalityI)
    show "length out = length (map (compact_pair ?ps) ?ps)"
      by (simp only: r(2) length_map)
    fix i assume "i < length out"
    then have i: "i < length ?ps"
      by (simp only: r(2))
    have "map (compact_pair ?ps) ?ps ! i = compact_pair ?ps (?ps ! i)"
      using i by (rule nth_map)
    with r(3) i show "out ! i = map (compact_pair ?ps) ?ps ! i"
      by metis
  qed
  then have out: "out = [(0, 0), (1, 0), (0, 1), (2, 1)]"
    unfolding compact_pair_def fs by simp
  have sl: "sarList = [15, 13, 14]" and ol: "optList = [22, 21]"
    unfolding r(4) r(5) fs by simp_all
  from r(1) out sl ol fs(1) show ?thesis
    by simp
qed

subsection \<open>The channel slices\<close>

declare InitFilter_loop.simps [simp del]

lemma InitFilter_loop_eq:
  "InitFilter_loop r p n (Suc j) (of_nat j * (r + p) + 1) ss os
   = (ss @ map (slot_sar_range r p) [j ..< n], os @ map (slot_opt_range r p) [j ..< n])"
proof (induction "n - j" arbitrary: j ss os)
  case 0
  then show ?case
    by (subst InitFilter_loop.simps) simp
next
  case (Suc d)
  then have lt: "j < n" and d: "d = n - Suc j" by simp_all
  have st: "of_nat j * (r + p) + 1 + (r + p) = of_nat (Suc j) * (r + p) + 1"
    by (simp add: algebra_simps)
  show ?case
    apply (subst InitFilter_loop.simps)
    using lt Suc.hyps(1) [OF d, of "ss @ [(of_nat j * (r + p) + 1, of_nat j * (r + p) + 1 + r - 1)]"
        "os @ [(r + (of_nat j * (r + p) + 1), of_nat j * (r + p) + 1 + r + p - 1)]"]
    by (simp add: st upt_conv_Cons slot_sar_range_def slot_opt_range_def algebra_simps)
qed

lemma InitFilter_eq:
  "InitFilter r p n = (map (slot_sar_range r p) [0 ..< n], map (slot_opt_range r p) [0 ..< n])"
  using InitFilter_loop_eq [of r p n 0 "[]" "[]"] by (simp add: InitFilter_def)

lemma unat_of_nat_small:
  "k < 2 ^ 32 \<Longrightarrow> unat (of_nat k :: 32 word) = k"
  by (simp add: unat_of_nat)

lemma range_as_nat_sar:
  fixes r p :: "32 word"
  assumes "Suc i * (unat r + unat p) + 1 < 2 ^ 32"
  shows "range_as_nat (slot_sar_range r p i)
         = (i * (unat r + unat p) + 1, i * (unat r + unat p) + unat r)"
proof -
  have a: "of_nat i * (r + p) + 1 = (of_nat (i * (unat r + unat p) + 1) :: 32 word)"
    and b: "of_nat i * (r + p) + r = (of_nat (i * (unat r + unat p) + unat r) :: 32 word)"
    by simp_all
  have la: "i * (unat r + unat p) + 1 < 2 ^ 32"
    and lb: "i * (unat r + unat p) + unat r < 2 ^ 32"
    using assms by simp_all
  show ?thesis
    unfolding slot_sar_range_def range_as_nat_def fst_conv snd_conv a b
    using unat_of_nat_small [OF la] unat_of_nat_small [OF lb] by simp
qed

lemma range_as_nat_opt:
  fixes r p :: "32 word"
  assumes "Suc i * (unat r + unat p) + 1 < 2 ^ 32"
  shows "range_as_nat (slot_opt_range r p i)
         = (i * (unat r + unat p) + unat r + 1, i * (unat r + unat p) + unat r + unat p)"
proof -
  have a: "of_nat i * (r + p) + r + 1 = (of_nat (i * (unat r + unat p) + unat r + 1) :: 32 word)"
    and b: "of_nat i * (r + p) + r + p = (of_nat (i * (unat r + unat p) + unat r + unat p) :: 32 word)"
    by simp_all
  have la: "i * (unat r + unat p) + unat r + 1 < 2 ^ 32"
    and lb: "i * (unat r + unat p) + unat r + unat p < 2 ^ 32"
    using assms by simp_all
  show ?thesis
    unfolding slot_opt_range_def range_as_nat_def fst_conv snd_conv a b
    using unat_of_nat_small [OF la] unat_of_nat_small [OF lb] by simp
qed

text \<open>
  C8. For \<open>r\<close> SAR bands, \<open>p\<close> optical bands and \<open>n\<close> outputs, the SAR slicer of slot \<open>i\<close>
  extracts the channels \<open>i * (r + p) + 1\<close> to \<open>i * (r + p) + r\<close> and the optical slicer the
  following \<open>p\<close> channels, channels counted from 1: as an identity of 32-bit arithmetic, and
  as natural numbers when the last channel of the slot is below \<open>2^32 - 1\<close>. For two SAR
  bands, one optical band and two outputs the slices are [1,2] and [3], then [4,5] and [6].
\<close>

theorem C8_channel_slices:
  "InitFilter r p n = (map (slot_sar_range r p) [0 ..< n], map (slot_opt_range r p) [0 ..< n])
   \<and> (\<forall>i<n. Suc i * (unat r + unat p) + 1 < 2 ^ 32 \<longrightarrow>
          range_as_nat (fst (InitFilter r p n) ! i)
            = (i * (unat r + unat p) + 1, i * (unat r + unat p) + unat r)
        \<and> range_as_nat (snd (InitFilter r p n) ! i)
            = (i * (unat r + unat p) + unat r + 1, i * (unat r + unat p) + unat r + unat p))
   \<and> InitFilter 2 1 2 = ([(1, 2), (4, 5)], [(3, 3), (6, 6)])"
proof (intro conjI allI impI)
  show "InitFilter r p n = (map (slot_sar_range r p) [0 ..< n], map (slot_opt_range r p) [0 ..< n])"
    by (rule InitFilter_eq)
next
  fix i assume "i < n" and b: "Suc i * (unat r + unat p) + 1 < 2 ^ 32"
  then show "range_as_nat (fst (InitFilter r p n) ! i)
            = (i * (unat r + unat p) + 1, i * (unat r + unat p) + unat r)"
    using range_as_nat_sar [OF b] by (simp add: InitFilter_eq)
next
  fix i assume "i < n" and b: "Suc i * (unat r + unat p) + 1 < 2 ^ 32"
  then show "range_as_nat (snd (InitFilter r p n) ! i)
            = (i * (unat r + unat p) + unat r + 1, i * (unat r + unat p) + unat r + unat p)"
    using range_as_nat_opt [OF b] by (simp add: InitFilter_eq)
next
  show "InitFilter 2 1 2 = ([(1, 2), (4, 5)], [(3, 3), (6, 6)])"
    by (simp add: InitFilter_eq slot_sar_range_def slot_opt_range_def upt_rec)
qed

theorem C8_witness:
  "(1::nat) < 2 \<and> Suc 1 * (unat (2 :: 32 word) + unat (1 :: 32 word)) + 1 < (2::nat) ^ 32
   \<and> range_as_nat (fst (InitFilter 2 1 2) ! 1) = (4, 5)
   \<and> range_as_nat (snd (InitFilter 2 1 2) ! 1) = (6, 6)"
proof -
  have h1: "(1::nat) < 2"
    by simp
  have h2: "Suc 1 * (unat (2 :: 32 word) + unat (1 :: 32 word)) + 1 < (2::nat) ^ 32"
    by simp
  have "range_as_nat (fst (InitFilter 2 1 2) ! 1)
          = (1 * (unat (2 :: 32 word) + unat (1 :: 32 word)) + 1,
             1 * (unat (2 :: 32 word) + unat (1 :: 32 word)) + unat (2 :: 32 word))
        \<and> range_as_nat (snd (InitFilter 2 1 2) ! 1)
          = (1 * (unat (2 :: 32 word) + unat (1 :: 32 word)) + unat (2 :: 32 word) + 1,
             1 * (unat (2 :: 32 word) + unat (1 :: 32 word)) + unat (2 :: 32 word) + unat (1 :: 32 word))"
    using C8_channel_slices [of 2 1 2] h1 h2 by blast
  then have "range_as_nat (fst (InitFilter 2 1 2) ! 1) = (4, 5)
        \<and> range_as_nat (snd (InitFilter 2 1 2) ! 1) = (6, 6)"
    by simp
  with h1 h2 show ?thesis
    by blast
qed

end
